theory Spec2Isabelle
  imports Main "HOL-Library.AList" "HOL-Library.Sublist" "HOL-Library.Char_ord" "HOL-Library.List_Lexorder"
begin

section \<open>Configuration builder: data model\<close>

text \<open>
  The package \<open>config\<close> builds one agent configuration out of many pipelines.
  Its component structs carry a name, a type tag, inputs and a free-form options map;
  kubernetes_logs sources carry three extra selector strings. An options map that is
  \<open>nil\<close> is \<open>None\<close>; its values are JSON values. The route table of a
  transform, a Go map from string to string, is an association list with distinct
  keys: \<open>m[k] = v\<close> is \<open>AList.update k v m\<close>, a lookup is \<open>map_of m k\<close>,
  and \<open>len(m)\<close> is the length of the list.
\<close>

datatype jvalue =
    JNull
  | JBool bool
  | JNum int
  | JStr string
  | JArr "jvalue list"
  | JObj "(string \<times> jvalue) list"

type_synonym options = "(string \<times> jvalue) list"

record Source =
  src_Name :: string
  src_Type :: string
  src_ExtraNamespaceLabelSelector :: string
  src_ExtraLabelSelector :: string
  src_ExtraFieldSelector :: string
  src_Options :: "options option"

record Transform =
  tr_Name :: string
  tr_Type :: string
  tr_Inputs :: "string list"
  tr_Route :: "(string \<times> string) list"
  tr_Options :: "options option"

record Sink =
  sink_Name :: string
  sink_Type :: string
  sink_Inputs :: "string list"
  sink_Options :: "options option"
  sink_OptionsHash :: string

text \<open>
  The aggregate: the three component collections and the top-level agent settings,
  which the builder never inspects (type parameter \<open>'a\<close>).
\<close>

record 'a VectorConfig =
  Sources :: "Source list"
  Transforms :: "Transform list"
  Sinks :: "Sink list"
  AgentSettings :: 'a

definition KubernetesSourceType :: string where
  "KubernetesSourceType = ''kubernetes_logs''"

definition BlackholeSinkType :: string where
  "BlackholeSinkType = ''blackhole''"

definition InternalMetricsSourceType :: string where
  "InternalMetricsSourceType = ''internal_metrics''"

definition InternalMetricsSourceName :: string where
  "InternalMetricsSourceName = ''internalMetricsSource''"

definition InternalMetricsSinkType :: string where
  "InternalMetricsSinkType = ''prometheus_exporter''"

definition InternalMetricsSinkName :: string where
  "InternalMetricsSinkName = ''internalMetricsSink''"

definition MergedKubernetesSourceName :: string where
  "MergedKubernetesSourceName = ''mergedKubernetesSource''"

definition MergedSourceTransformName :: string where
  "MergedSourceTransformName = ''merged''"

definition RouteTransformType :: string where
  "RouteTransformType = ''route''"

definition DefaultSourceName :: string where
  "DefaultSourceName = ''defaultSource''"

definition PodSelectorType :: string where
  "PodSelectorType = ''pod_labels''"

definition NamespaceSelectorType :: string where
  "NamespaceSelectorType = ''ns_labels''"

text \<open>A struct literal that sets only some fields leaves the others at their zero value.\<close>

definition emptySource :: Source where
  "emptySource = \<lparr>src_Name = [], src_Type = [], src_ExtraNamespaceLabelSelector = [],
     src_ExtraLabelSelector = [], src_ExtraFieldSelector = [], src_Options = None\<rparr>"

definition sourceDefault :: Source where
  "sourceDefault = emptySource\<lparr>src_Name := ''defaultSource'', src_Type := KubernetesSourceType\<rparr>"

definition internalMetricSource :: Source where
  "internalMetricSource =
     emptySource\<lparr>src_Name := InternalMetricsSourceName, src_Type := InternalMetricsSourceType\<rparr>"

definition sinkDefault :: Sink where
  "sinkDefault = \<lparr>sink_Name = ''defaultSink'', sink_Type = BlackholeSinkType,
     sink_Inputs = [src_Name sourceDefault],
     sink_Options = Some [(''print_interval_secs'', JNum 60), (''rate'', JNum 100)],
     sink_OptionsHash = []\<rparr>"

definition internalMetricsExporter :: Sink where
  "internalMetricsExporter = \<lparr>sink_Name = InternalMetricsSinkName,
     sink_Type = InternalMetricsSinkType, sink_Inputs = [src_Name internalMetricSource],
     sink_Options = None, sink_OptionsHash = []\<rparr>"

section \<open>Label selectors to VRL filters\<close>

text \<open>
  \<open>strings.Split(s, sep)\<close> for a separator that is not empty: cut at the leftmost
  occurrence of \<open>sep\<close>, then go on behind it; a string without the separator is
  returned whole, as the only piece. \<open>cur\<close> holds the piece read so far. (The callers
  pass \<open>","\<close>, \<open>"!="\<close> and \<open>"="\<close>; for an empty separator Go cuts between
  characters, which is the first branch on ASCII text.)
\<close>

function strings_Split_from :: "string \<Rightarrow> string \<Rightarrow> string \<Rightarrow> string list" where
  "strings_Split_from cur s sep =
     (if sep = [] then map (\<lambda>c. [c]) (cur @ s)
      else if prefix sep s then cur # strings_Split_from [] (drop (length sep) s) sep
      else (case s of
              [] \<Rightarrow> [cur]
            | c # cs \<Rightarrow> strings_Split_from (cur @ [c]) cs sep))"
  by pat_completeness auto
termination
  by (relation "measure (\<lambda>(cur, s, sep). length s)") (auto simp: prefix_def)

definition strings_Split :: "string \<Rightarrow> string \<Rightarrow> string list" where
  "strings_Split s sep = strings_Split_from [] s sep"

definition strings_TrimSuffix :: "string \<Rightarrow> string \<Rightarrow> string" where
  "strings_TrimSuffix s suf =
     (if suffix suf s then take (length s - length suf) s else s)"

definition dquote :: string where
  "dquote = [CHR 0x22]"

definition formatVrlSelector :: "string \<Rightarrow> string" where
  "formatVrlSelector label =
     (let l = strings_Split label ''!='' in
      if length l = 2 then dquote @ l ! 0 @ dquote @ '' != '' @ dquote @ l ! 1 @ dquote
      else
        let l = strings_Split label ''='' in
        if length l \<noteq> 2 then label
        else dquote @ l ! 0 @ dquote @ '' == '' @ dquote @ l ! 1 @ dquote)"

definition generateVrlFilter :: "string \<Rightarrow> string \<Rightarrow> string" where
  "generateVrlFilter selector selectorType =
     (let labels = strings_Split selector '','';
          buffer = foldl (\<lambda>buffer label.
                      let label = formatVrlSelector label in
                      if selectorType = PodSelectorType
                        then buffer @ ''.kubernetes.pod_labels.'' @ label @ ''&&''
                      else if selectorType = NamespaceSelectorType
                        then buffer @ ''.kubernetes.namespace_labels.'' @ label @ ''&&''
                      else buffer) [] labels
      in strings_TrimSuffix buffer ''&&'')"

section \<open>The kubernetes-log merge pass\<close>

text \<open>
  The first loop of \<open>mergeKubernetesSources\<close>: an eligible source (kubernetes_logs,
  no field selector, both label selectors set, options nil) is recorded in \<open>routes\<close>
  under its name and skipped; every other source is kept.
\<close>

definition eligible :: "Source \<Rightarrow> bool" where
  "eligible source \<longleftrightarrow>
     src_Type source = KubernetesSourceType \<and> src_ExtraFieldSelector source = [] \<and>
     src_ExtraNamespaceLabelSelector source \<noteq> [] \<and> src_ExtraLabelSelector source \<noteq> [] \<and>
     src_Options source = None"

definition routeExpr :: "Source \<Rightarrow> string" where
  "routeExpr source =
     generateVrlFilter (src_ExtraLabelSelector source) PodSelectorType @ ''&&'' @
     generateVrlFilter (src_ExtraNamespaceLabelSelector source) NamespaceSelectorType"

fun collectRoutes ::
  "Source list \<Rightarrow> Source list \<Rightarrow> (string \<times> string) list \<Rightarrow>
   Source list \<times> (string \<times> string) list" where
  "collectRoutes [] mergedSource routes = (mergedSource, routes)"
| "collectRoutes (source # rest) mergedSource routes =
     (if eligible source
      then collectRoutes rest mergedSource
             (AList.update (src_Name source) (routeExpr source) routes)
      else collectRoutes rest (mergedSource @ [source]) routes)"

definition rewriteInputs :: "(string \<times> string) list \<Rightarrow> string list \<Rightarrow> string list" where
  "rewriteInputs routes inputs =
     map (\<lambda>i. if map_of routes i \<noteq> None then MergedSourceTransformName @ ''.'' @ i else i)
       inputs"

text \<open>
  The pass itself. Go mutates the configuration and the inputs of its transforms and
  sinks in place and always returns a nil error; the model returns the configuration.
\<close>

definition mergeKubernetesSources :: "'a VectorConfig \<Rightarrow> 'a VectorConfig" where
  "mergeKubernetesSources config =
     (let (mergedSource, routes) = collectRoutes (Sources config) [] [] in
      if length routes > 0 then
        let mergedSource = mergedSource @
              [emptySource\<lparr>src_Name := MergedKubernetesSourceName, src_Type := KubernetesSourceType\<rparr>];
            transform = \<lparr>tr_Name = MergedSourceTransformName, tr_Type = RouteTransformType,
                         tr_Inputs = [MergedKubernetesSourceName], tr_Route = routes,
                         tr_Options = None\<rparr>;
            transforms = map (\<lambda>t. t\<lparr>tr_Inputs := rewriteInputs routes (tr_Inputs t)\<rparr>)
                           (Transforms config);
            sinks = map (\<lambda>t. t\<lparr>sink_Inputs := rewriteInputs routes (sink_Inputs t)\<rparr>)
                      (Sinks config)
        in config\<lparr>Sources := mergedSource, Transforms := transforms @ [transform], Sinks := sinks\<rparr>
      else config)"

definition retiredNames :: "'a VectorConfig \<Rightarrow> string list" where
  "retiredNames config = map src_Name (filter eligible (Sources config))"

section \<open>The sink merge pass\<close>

text \<open>
  \<open>mergeSyncs\<close> walks the sinks with a map \<open>uniqOpts\<close> from options hash to a
  pointer to a sink already appended to \<open>mergedSinks\<close>. The pointer is modelled by the
  sink's position in \<open>mergedSinks\<close>: every sink of the list is an object of its own,
  and a sink enters the map exactly when it is appended. A sink whose hash is known and
  whose type equals the recorded sink's is folded into it: the recorded sink is renamed
  to its hash and takes the inputs of both, sorted (\<open>sort.Strings\<close>: bytewise
  lexicographic order). Any other sink replaces the map entry and is appended.
\<close>

fun mergeSyncs_loop :: "Sink list \<Rightarrow> (string \<rightharpoonup> nat) \<Rightarrow> Sink list \<Rightarrow> Sink list" where
  "mergeSyncs_loop [] uniqOpts mergedSinks = mergedSinks"
| "mergeSyncs_loop (sink # rest) uniqOpts mergedSinks =
     (case uniqOpts (sink_OptionsHash sink) of
        Some p \<Rightarrow>
          (let v = mergedSinks ! p in
           if sink_Type sink = sink_Type v
           then mergeSyncs_loop rest uniqOpts
                  (mergedSinks[p := v\<lparr>sink_Name := sink_OptionsHash v,
                                        sink_Inputs := sort (sink_Inputs v @ sink_Inputs sink)\<rparr>])
           else mergeSyncs_loop rest (uniqOpts(sink_OptionsHash sink \<mapsto> length mergedSinks))
                  (mergedSinks @ [sink]))
      | None \<Rightarrow>
          mergeSyncs_loop rest (uniqOpts(sink_OptionsHash sink \<mapsto> length mergedSinks))
            (mergedSinks @ [sink]))"

definition mergeSinkList :: "Sink list \<Rightarrow> Sink list" where
  "mergeSinkList sinks = mergeSyncs_loop sinks Map.empty []"

definition mergeSyncs :: "'a VectorConfig \<Rightarrow> 'a VectorConfig" where
  "mergeSyncs config =
     (let mergedSinks = mergeSinkList (Sinks config) in
      if length mergedSinks > 0 then config\<lparr>Sinks := mergedSinks\<rparr> else config)"

text \<open>
  For the proofs: the position of the last sink of a list that has a given options hash
  (what \<open>uniqOpts\<close> holds for that hash once the list has been appended), and the
  lists on which the loop never merges: no sink has the type of the sink before it in
  its hash class.
\<close>

fun lastIdx :: "string \<Rightarrow> Sink list \<Rightarrow> nat option" where
  "lastIdx h [] = None"
| "lastIdx h (x # xs) =
     (case lastIdx h xs of
        Some i \<Rightarrow> Some (Suc i)
      | None \<Rightarrow> if sink_OptionsHash x = h then Some 0 else None)"

fun stable_from :: "Sink list \<Rightarrow> Sink list \<Rightarrow> bool" where
  "stable_from pre [] = True"
| "stable_from pre (s # rest) =
     ((case lastIdx (sink_OptionsHash s) pre of
         Some p \<Rightarrow> sink_Type s \<noteq> sink_Type (pre ! p)
       | None \<Rightarrow> True) \<and>
      stable_from (pre @ [s]) rest)"

section \<open>Extraction of the components of the pipelines\<close>

text \<open>
  A pipeline gives its scope kind, namespace, name and three raw payloads, each absent
  (\<open>nil\<close>) or present. A payload is modelled by what decoding it yields: a failure
  of \<open>decodeRaw\<close>, or the entries of the decoded map, in the order in which Go's
  \<open>range\<close> visits them (any order), each value with the outcome of
  \<open>mapstructure.Decode\<close> on it. Decoding has three outcomes: an error
  (\<open>DecodeFailed\<close>); no error and nothing decoded, which is what a JSON
  \<open>null\<close> gives (\<open>DecodedNil\<close>: the map, or the pointer to the component,
  stays nil); or a value. Ranging over a nil map visits nothing. A component pointer
  that stayed nil is dereferenced by the assignment of the name that follows, and the
  builder panics: the outcome \<open>NilPointerPanic\<close>, which stands with the returned
  errors on the left of the result although Go returns nothing then.
\<close>

datatype build_error = PipelineTypeError | PipelineScopeError | DecodeError | NilPointerPanic

datatype pipeline_kind = ClusterPipelineKind | NamespacedPipelineKind

datatype 'c decoded = DecodeFailed | DecodedNil | Decoded 'c

type_synonym 'c raw = "(string \<times> 'c decoded) list decoded"

record Pipeline =
  p_Type :: pipeline_kind
  p_Namespace :: string
  p_Name :: string
  spec_Sources :: "Source raw option"
  spec_Transforms :: "Transform raw option"
  spec_Sinks :: "Sink raw option"

text \<open>
  Helpers of the repository that the builder calls and whose code is outside the
  files at hand are parameters of the model: the label selector that stands for a
  namespace, the prefixing of a component name, the JSON rendering of an options map
  (\<open>None\<close> when \<open>json.Marshal\<close> fails) and the printed hash of the rendered bytes.
\<close>

record deps =
  NamespaceNameToLabel :: "string \<Rightarrow> string"
  addPrefix :: "string \<Rightarrow> string \<Rightarrow> string \<Rightarrow> string"
  jsonMarshal :: "options option \<Rightarrow> string option"
  hashSprint :: "string \<Rightarrow> string"

fun decodeSources ::
  "deps \<Rightarrow> Pipeline \<Rightarrow> string list \<Rightarrow> (string \<times> Source decoded) list \<Rightarrow> Source list \<Rightarrow>
   build_error + Source list" where
  "decodeSources d pipeline flt [] sources = Inr sources"
| "decodeSources d pipeline flt ((k, v) # rest) sources =
     (if flt \<noteq> [] \<and> k \<notin> set flt then decodeSources d pipeline flt rest sources
      else (case v of
              DecodeFailed \<Rightarrow> Inl DecodeError
            | DecodedNil \<Rightarrow> Inl NilPointerPanic
            | Decoded source \<Rightarrow>
                decodeSources d pipeline flt rest
                  (sources @ [source\<lparr>src_Name :=
                     addPrefix d (p_Namespace pipeline) (p_Name pipeline) k\<rparr>])))"

definition getSources :: "deps \<Rightarrow> Pipeline \<Rightarrow> string list \<Rightarrow> build_error + Source list" where
  "getSources d pipeline flt =
     (case spec_Sources pipeline of
        None \<Rightarrow> Inr []
      | Some DecodeFailed \<Rightarrow> Inl DecodeError
      | Some DecodedNil \<Rightarrow> Inr []
      | Some (Decoded sourcesMap) \<Rightarrow> decodeSources d pipeline flt sourcesMap [])"

fun decodeTransforms ::
  "deps \<Rightarrow> Pipeline \<Rightarrow> (string \<times> Transform decoded) list \<Rightarrow> Transform list \<Rightarrow>
   build_error + Transform list" where
  "decodeTransforms d pipeline [] transforms = Inr transforms"
| "decodeTransforms d pipeline ((k, v) # rest) transforms =
     (case v of
        DecodeFailed \<Rightarrow> Inl DecodeError
      | DecodedNil \<Rightarrow> Inl NilPointerPanic
      | Decoded transform \<Rightarrow>
          decodeTransforms d pipeline rest
            (transforms @ [transform\<lparr>
               tr_Name := addPrefix d (p_Namespace pipeline) (p_Name pipeline) k,
               tr_Inputs := map (addPrefix d (p_Namespace pipeline) (p_Name pipeline))
                              (tr_Inputs transform)\<rparr>]))"

definition getTransforms :: "deps \<Rightarrow> Pipeline \<Rightarrow> build_error + Transform list" where
  "getTransforms d pipeline =
     (case spec_Transforms pipeline of
        None \<Rightarrow> Inr []
      | Some DecodeFailed \<Rightarrow> Inl DecodeError
      | Some DecodedNil \<Rightarrow> Inr []
      | Some (Decoded transformsMap) \<Rightarrow> decodeTransforms d pipeline transformsMap [])"

fun decodeSinks ::
  "deps \<Rightarrow> Pipeline \<Rightarrow> (string \<times> Sink decoded) list \<Rightarrow> Sink list \<Rightarrow>
   build_error + Sink list" where
  "decodeSinks d pipeline [] sinks = Inr sinks"
| "decodeSinks d pipeline ((k, v) # rest) sinks =
     (case v of
        DecodeFailed \<Rightarrow> Inl DecodeError
      | DecodedNil \<Rightarrow> Inl NilPointerPanic
      | Decoded sink \<Rightarrow>
          (case jsonMarshal d (sink_Options sink) of
             None \<Rightarrow> Inl DecodeError
           | Some optbyte \<Rightarrow>
               decodeSinks d pipeline rest
                 (sinks @ [sink\<lparr>
                    sink_Name := addPrefix d (p_Namespace pipeline) (p_Name pipeline) k,
                    sink_Inputs := map (addPrefix d (p_Namespace pipeline) (p_Name pipeline))
                                     (sink_Inputs sink),
                    sink_OptionsHash := hashSprint d optbyte\<rparr>])))"

definition getSinks :: "deps \<Rightarrow> Pipeline \<Rightarrow> build_error + Sink list" where
  "getSinks d pipeline =
     (case spec_Sinks pipeline of
        None \<Rightarrow> Inr []
      | Some DecodeFailed \<Rightarrow> Inl DecodeError
      | Some DecodedNil \<Rightarrow> Inr []
      | Some (Decoded sinksMap) \<Rightarrow> decodeSinks d pipeline sinksMap [])"

text \<open>
  The source loop of \<open>getComponents\<close> for one pipeline: the namespace filter of a
  kubernetes_logs source of a namespaced pipeline is defaulted, then the scope checks
  run, and the first failing source ends the whole build.
\<close>

definition defaultNamespaceSelector :: "deps \<Rightarrow> Pipeline \<Rightarrow> Source \<Rightarrow> Source" where
  "defaultNamespaceSelector d pipeline source =
     (if src_Type source = KubernetesSourceType \<and> p_Type pipeline \<noteq> ClusterPipelineKind \<and>
         src_ExtraNamespaceLabelSelector source = []
      then source\<lparr>src_ExtraNamespaceLabelSelector :=
             NamespaceNameToLabel d (p_Namespace pipeline)\<rparr>
      else source)"

definition scopeCheck :: "deps \<Rightarrow> Pipeline \<Rightarrow> Source \<Rightarrow> build_error option" where
  "scopeCheck d pipeline source =
     (if p_Type pipeline \<noteq> ClusterPipelineKind then
        if src_Type source \<noteq> KubernetesSourceType then Some PipelineTypeError
        else if src_Type source = InternalMetricsSourceType then Some PipelineTypeError
        else if src_ExtraNamespaceLabelSelector source \<noteq> [] \<and>
                src_ExtraNamespaceLabelSelector source \<noteq>
                  NamespaceNameToLabel d (p_Namespace pipeline)
          then Some PipelineScopeError
        else None
      else None)"

fun checkSources ::
  "deps \<Rightarrow> Pipeline \<Rightarrow> Source list \<Rightarrow> Source list \<Rightarrow> build_error + Source list" where
  "checkSources d pipeline [] sources = Inr sources"
| "checkSources d pipeline (source # rest) sources =
     (let source = defaultNamespaceSelector d pipeline source in
      case scopeCheck d pipeline source of
        Some e \<Rightarrow> Inl e
      | None \<Rightarrow> checkSources d pipeline rest (sources @ [source]))"

fun getComponents_loop ::
  "deps \<Rightarrow> Pipeline list \<Rightarrow> Source list \<times> Transform list \<times> Sink list \<Rightarrow>
   build_error + Source list \<times> Transform list \<times> Sink list" where
  "getComponents_loop d [] acc = Inr acc"
| "getComponents_loop d (pipeline # rest) (sources, transforms, sinks) =
     (case getSources d pipeline [] of
        Inl e \<Rightarrow> Inl e
      | Inr pipelineSources \<Rightarrow>
     (case checkSources d pipeline pipelineSources sources of
        Inl e \<Rightarrow> Inl e
      | Inr sources \<Rightarrow>
     (case getTransforms d pipeline of
        Inl e \<Rightarrow> Inl e
      | Inr pipelineTransforms \<Rightarrow>
     (case getSinks d pipeline of
        Inl e \<Rightarrow> Inl e
      | Inr pipelineSinks \<Rightarrow>
          getComponents_loop d rest
            (sources, transforms @ pipelineTransforms, sinks @ pipelineSinks)))))"

definition getComponents ::
  "deps \<Rightarrow> Pipeline list \<Rightarrow> build_error + Source list \<times> Transform list \<times> Sink list" where
  "getComponents d pipelines = getComponents_loop d pipelines ([], [], [])"

section \<open>The builder\<close>

text \<open>
  The builder holds the pipelines and, of the agent's resource, the three switches the
  build reads and the top-level settings that \<open>New\<close> copies into the configuration.
\<close>

record 'a Builder =
  Pipelines :: "Pipeline list"
  Spec_Agent_InternalMetrics :: bool
  Spec_MergeKubernetesSources :: bool
  Spec_MergeSinks :: bool
  Settings :: 'a

definition isExporterSinkExists :: "Sink list \<Rightarrow> bool" where
  "isExporterSinkExists sinks = (\<exists>sink \<in> set sinks. sink_Type sink = InternalMetricsSinkType)"

text \<open>
  \<open>generateVectorConfig\<close> up to the assignment of the three collections: extraction,
  the internal-metrics pair, the defaults.
\<close>

definition assembleConfig :: "deps \<Rightarrow> 'a Builder \<Rightarrow> build_error + 'a VectorConfig" where
  "assembleConfig d b =
     (case getComponents d (Pipelines b) of
        Inl e \<Rightarrow> Inl e
      | Inr (sources, transforms, sinks) \<Rightarrow>
          (let (sources, sinks) =
                 (if Spec_Agent_InternalMetrics b \<and> \<not> isExporterSinkExists sinks
                  then (sources @ [internalMetricSource], sinks @ [internalMetricsExporter])
                  else (sources, sinks));
               sources = (if length sources = 0 then [sourceDefault] else sources);
               sinks = (if length sinks = 0 then [sinkDefault] else sinks)
           in Inr \<lparr>Sources = sources, Transforms = transforms, Sinks = sinks,
                    AgentSettings = Settings b\<rparr>))"

definition mergePasses :: "'a Builder \<Rightarrow> 'a VectorConfig \<Rightarrow> 'a VectorConfig" where
  "mergePasses b vectorConfig =
     (let vectorConfig = (if Spec_MergeKubernetesSources b
                          then mergeKubernetesSources vectorConfig else vectorConfig);
          vectorConfig = (if Spec_MergeSinks b then mergeSyncs vectorConfig else vectorConfig)
      in vectorConfig)"

definition generateVectorConfig :: "deps \<Rightarrow> 'a Builder \<Rightarrow> build_error + 'a VectorConfig" where
  "generateVectorConfig d b =
     (case assembleConfig d b of
        Inl e \<Rightarrow> Inl e
      | Inr vectorConfig \<Rightarrow> Inr (mergePasses b vectorConfig))"

section \<open>Vocabulary of the scope rules\<close>

text \<open>
  A pipeline declares a source when its sources payload decodes to a map that holds
  the source under some key. The sources that \<open>getComponents\<close> extracts from a
  pipeline are its declared sources, renamed and with the namespace filter defaulted.
  A declared source breaks the type rule when it is not of type kubernetes_logs, and
  the scope rule when it is, and sets a namespace filter other than the one of the
  pipeline's namespace.
\<close>

definition declares :: "Pipeline \<Rightarrow> Source \<Rightarrow> bool" where
  "declares pipeline source =
     (case spec_Sources pipeline of
        Some (Decoded sourcesMap) \<Rightarrow> Decoded source \<in> snd ` set sourcesMap
      | _ \<Rightarrow> False)"

definition breaksTypeRule :: "Source \<Rightarrow> bool" where
  "breaksTypeRule source \<longleftrightarrow> src_Type source \<noteq> KubernetesSourceType"

definition breaksScopeRule :: "deps \<Rightarrow> Pipeline \<Rightarrow> Source \<Rightarrow> bool" where
  "breaksScopeRule d pipeline source \<longleftrightarrow>
     src_Type source = KubernetesSourceType \<and> src_ExtraNamespaceLabelSelector source \<noteq> [] \<and>
     src_ExtraNamespaceLabelSelector source \<noteq> NamespaceNameToLabel d (p_Namespace pipeline)"

text \<open>
  One round of the loop of \<open>getComponents\<close>, started from empty collections: what a
  pipeline contributes, or the error that ends the build at this pipeline.
\<close>

definition extractPipeline ::
  "deps \<Rightarrow> Pipeline \<Rightarrow> build_error + Source list \<times> Transform list \<times> Sink list" where
  "extractPipeline d pipeline = getComponents_loop d [pipeline] ([], [], [])"

definition pipelineSources :: "deps \<Rightarrow> Pipeline \<Rightarrow> Source list" where
  "pipelineSources d pipeline =
     (case extractPipeline d pipeline of Inl e \<Rightarrow> [] | Inr (sources, transforms, sinks) \<Rightarrow> sources)"

definition pipelineTransforms :: "deps \<Rightarrow> Pipeline \<Rightarrow> Transform list" where
  "pipelineTransforms d pipeline =
     (case extractPipeline d pipeline of Inl e \<Rightarrow> [] | Inr (sources, transforms, sinks) \<Rightarrow> transforms)"

definition pipelineSinks :: "deps \<Rightarrow> Pipeline \<Rightarrow> Sink list" where
  "pipelineSinks d pipeline =
     (case extractPipeline d pipeline of Inl e \<Rightarrow> [] | Inr (sources, transforms, sinks) \<Rightarrow> sinks)"

definition allDecode :: "(string \<times> 'c decoded) list \<Rightarrow> bool" where
  "allDecode entries =
     list_all (\<lambda>(k, v). case v of Decoded c \<Rightarrow> True | _ \<Rightarrow> False) entries"

definition obeysRules :: "deps \<Rightarrow> Pipeline \<Rightarrow> (string \<times> Source decoded) \<Rightarrow> bool" where
  "obeysRules d pipeline entry =
     (case snd entry of
        Decoded source \<Rightarrow> \<not> breaksTypeRule source \<and> \<not> breaksScopeRule d pipeline source
      | _ \<Rightarrow> False)"

section \<open>Vocabulary of the references between components\<close>

text \<open>
  The inputs of a configuration are the entries of the \<open>Inputs\<close> of its transforms
  and sinks. An input names a component when it is the name of an emitted source or
  transform. The agent also addresses the outputs of a routing transform, as the name
  of the transform, a dot, and a key of its route table: this is the form the
  kubernetes-log merge pass gives to the inputs it rewrites. An input resolves when it
  names a component or a route output.
\<close>

definition allInputs :: "'a VectorConfig \<Rightarrow> string list" where
  "allInputs config =
     concat (map tr_Inputs (Transforms config)) @ concat (map sink_Inputs (Sinks config))"

definition componentNames :: "'a VectorConfig \<Rightarrow> string list" where
  "componentNames config = map src_Name (Sources config) @ map tr_Name (Transforms config)"

definition routeOutputs :: "'a VectorConfig \<Rightarrow> string list" where
  "routeOutputs config =
     concat (map (\<lambda>t. map (\<lambda>(k, v). tr_Name t @ ''.'' @ k) (tr_Route t)) (Transforms config))"

definition namesComponent :: "'a VectorConfig \<Rightarrow> string \<Rightarrow> bool" where
  "namesComponent config i \<longleftrightarrow> i \<in> set (componentNames config)"

definition resolves :: "'a VectorConfig \<Rightarrow> string \<Rightarrow> bool" where
  "resolves config i \<longleftrightarrow> i \<in> set (componentNames config) \<or> i \<in> set (routeOutputs config)"

section \<open>Vocabulary of the component names\<close>

text \<open>
  The names of a configuration, sources first, then transforms, then sinks. The keys
  under which a pipeline declares its components, per kind (a payload that is absent
  or decodes to no map has none), and the names the pipelines' keys get by prefixing,
  in the order in which \<open>getComponents\<close> appends the components. The six names the
  builder gives to the components it injects.
\<close>

definition configNames :: "'a VectorConfig \<Rightarrow> string list" where
  "configNames config =
     map src_Name (Sources config) @ map tr_Name (Transforms config) @
     map sink_Name (Sinks config)"

definition keysOf :: "'c raw option \<Rightarrow> string list" where
  "keysOf payload = (case payload of Some (Decoded entries) \<Rightarrow> map fst entries | _ \<Rightarrow> [])"

definition prefixed :: "deps \<Rightarrow> (Pipeline \<Rightarrow> string list) \<Rightarrow> Pipeline list \<Rightarrow> string list" where
  "prefixed d keys pipelines =
     concat (map (\<lambda>p. map (addPrefix d (p_Namespace p) (p_Name p)) (keys p)) pipelines)"

definition prefixedNames :: "deps \<Rightarrow> Pipeline list \<Rightarrow> string list" where
  "prefixedNames d pipelines =
     prefixed d (\<lambda>p. keysOf (spec_Sources p)) pipelines @
     prefixed d (\<lambda>p. keysOf (spec_Transforms p)) pipelines @
     prefixed d (\<lambda>p. keysOf (spec_Sinks p)) pipelines"

definition fixedNames :: "string list" where
  "fixedNames = [src_Name sourceDefault, sink_Name sinkDefault, InternalMetricsSourceName,
     InternalMetricsSinkName, MergedKubernetesSourceName, MergedSourceTransformName]"

section \<open>Example inputs\<close>

definition exampleMergeConfig :: "unit VectorConfig" where
  "exampleMergeConfig = \<lparr>
     Sources = [
       emptySource\<lparr>src_Name := ''app1.p.logs'', src_Type := ''kubernetes_logs'',
         src_ExtraLabelSelector := ''app=foo'', src_ExtraNamespaceLabelSelector := ''team=x''\<rparr>,
       emptySource\<lparr>src_Name := ''app2.p.logs'', src_Type := ''kubernetes_logs'',
         src_ExtraLabelSelector := ''app=bar'', src_ExtraNamespaceLabelSelector := ''team=y''\<rparr>,
       emptySource\<lparr>src_Name := ''app3.p.file'', src_Type := ''file''\<rparr>],
     Transforms = [
       \<lparr>tr_Name = ''app1.p.parse'', tr_Type = ''remap'', tr_Inputs = [''app1.p.logs'', ''app3.p.file''],
        tr_Route = [], tr_Options = None\<rparr>],
     Sinks = [
       \<lparr>sink_Name = ''app2.p.out'', sink_Type = ''console'', sink_Inputs = [''app2.p.logs'', ''app1.p.parse''],
        sink_Options = None, sink_OptionsHash = ''7''\<rparr>],
     AgentSettings = ()\<rparr>"

definition exampleUnmergedConfig :: "unit VectorConfig" where
  "exampleUnmergedConfig = \<lparr>
     Sources = [emptySource\<lparr>src_Name := ''app3.p.file'', src_Type := ''file''\<rparr>, sourceDefault],
     Transforms = [],
     Sinks = [sinkDefault],
     AgentSettings = ()\<rparr>"


definition exampleSinks :: "Sink list" where
  "exampleSinks = [
     \<lparr>sink_Name = ''ns.p.a'', sink_Type = ''console'', sink_Inputs = [''ns.p.src2''],
      sink_Options = None, sink_OptionsHash = ''17''\<rparr>,
     \<lparr>sink_Name = ''ns.q.b'', sink_Type = ''console'', sink_Inputs = [''ns.q.src1''],
      sink_Options = None, sink_OptionsHash = ''17''\<rparr>,
     \<lparr>sink_Name = ''ns.q.c'', sink_Type = ''blackhole'', sink_Inputs = [''ns.q.src1''],
      sink_Options = None, sink_OptionsHash = ''17''\<rparr>]"

definition exampleMergedSinks :: "Sink list" where
  "exampleMergedSinks = [
     \<lparr>sink_Name = ''17'', sink_Type = ''console'', sink_Inputs = [''ns.p.src2'', ''ns.q.src1''],
      sink_Options = None, sink_OptionsHash = ''17''\<rparr>,
     \<lparr>sink_Name = ''ns.q.c'', sink_Type = ''blackhole'', sink_Inputs = [''ns.q.src1''],
      sink_Options = None, sink_OptionsHash = ''17''\<rparr>]"

text \<open>
  Modelled from the spec: the helpers of the pipeline and hash packages that the builder
  calls. \<open>addPrefix\<close> joins the namespace, the pipeline name and the key with dots (the
  spec's \<open><namespace>.<pipeline-name>.<local-key>\<close>), the namespace of a cluster
  pipeline being empty; \<open>NamespaceNameToLabel\<close> gives the label selector of the
  namespace's name; the serialisation and the hash are stand-ins that keep equal options
  equal.
\<close>

definition exampleDeps :: deps where
  "exampleDeps = \<lparr>
     NamespaceNameToLabel = (\<lambda>ns. ''kubernetes.io/metadata.name='' @ ns),
     addPrefix = (\<lambda>ns name k. ns @ ''.'' @ name @ ''.'' @ k),
     jsonMarshal = (\<lambda>opts. Some (case opts of None \<Rightarrow> ''null'' | Some kvs \<Rightarrow> concat (map fst kvs))),
     hashSprint = (\<lambda>bytes. bytes)\<rparr>"

definition emptyPipeline :: Pipeline where
  "emptyPipeline = \<lparr>p_Type = NamespacedPipelineKind, p_Namespace = [], p_Name = [],
     spec_Sources = None, spec_Transforms = None, spec_Sinks = None\<rparr>"

definition foreignLogsSource :: Source where
  "foreignLogsSource = emptySource\<lparr>src_Type := ''kubernetes_logs'',
     src_ExtraNamespaceLabelSelector := ''kubernetes.io/metadata.name=other''\<rparr>"

definition fileSource :: Source where
  "fileSource = emptySource\<lparr>src_Type := ''file''\<rparr>"

definition ownLogsSource :: Source where
  "ownLogsSource = emptySource\<lparr>src_Type := ''kubernetes_logs''\<rparr>"

definition scopePipeline :: Pipeline where
  "scopePipeline = emptyPipeline\<lparr>p_Namespace := ''app1'', p_Name := ''p'',
     spec_Sources := Some (Decoded [(''logs'', Decoded foreignLogsSource)])\<rparr>"

definition typePipeline :: Pipeline where
  "typePipeline = emptyPipeline\<lparr>p_Namespace := ''app2'', p_Name := ''q'',
     spec_Sources := Some (Decoded [(''files'', Decoded fileSource)])\<rparr>"

definition ownPipeline :: Pipeline where
  "ownPipeline = emptyPipeline\<lparr>p_Namespace := ''app3'', p_Name := ''r'',
     spec_Sources := Some (Decoded [(''logs'', Decoded ownLogsSource)])\<rparr>"

definition exampleBuilder :: "Pipeline list \<Rightarrow> unit Builder" where
  "exampleBuilder pipelines = \<lparr>Pipelines = pipelines, Spec_Agent_InternalMetrics = False,
     Spec_MergeKubernetesSources = True, Spec_MergeSinks = True, Settings = ()\<rparr>"

text \<open>
  Two cluster-scoped pipelines whose sources get one prefixed name under the prefixing
  scheme of \<open>exampleDeps\<close> (namespace, pipeline name and key joined by dots): pipeline
  \<open>b.c\<close> with the key \<open>d\<close>, and pipeline \<open>b\<close> with the key \<open>c.d\<close>.
\<close>

definition clashPipelineA :: Pipeline where
  "clashPipelineA = emptyPipeline\<lparr>p_Type := ClusterPipelineKind, p_Name := ''b.c'',
     spec_Sources := Some (Decoded [(''d'', Decoded (emptySource\<lparr>src_Type := ''kubernetes_logs'',
       src_ExtraLabelSelector := ''app=foo'', src_ExtraNamespaceLabelSelector := ''team=x''\<rparr>))])\<rparr>"

definition clashPipelineB :: Pipeline where
  "clashPipelineB = emptyPipeline\<lparr>p_Type := ClusterPipelineKind, p_Name := ''b'',
     spec_Sources := Some (Decoded [(''c.d'', Decoded (emptySource\<lparr>src_Type := ''kubernetes_logs'',
       src_ExtraLabelSelector := ''app=bar'', src_ExtraNamespaceLabelSelector := ''team=y''\<rparr>))])\<rparr>"

definition clashSource :: Source where
  "clashSource = emptySource\<lparr>src_Name := ''.b.c.d'', src_Type := ''kubernetes_logs'',
     src_ExtraLabelSelector := ''app=foo'', src_ExtraNamespaceLabelSelector := ''team=x''\<rparr>"

definition exampleClashConfig :: "unit VectorConfig" where
  "exampleClashConfig = \<lparr>
     Sources = [clashSource,
       emptySource\<lparr>src_Name := ''.b.c.d'', src_Type := ''kubernetes_logs'',
         src_ExtraLabelSelector := ''app=bar'', src_ExtraNamespaceLabelSelector := ''team=y''\<rparr>],
     Transforms = [],
     Sinks = [sinkDefault],
     AgentSettings = ()\<rparr>"

definition extractedOwnSource :: Source where
  "extractedOwnSource = emptySource\<lparr>src_Name := ''app3.r.logs'', src_Type := ''kubernetes_logs'',
     src_ExtraNamespaceLabelSelector := ''kubernetes.io/metadata.name=app3''\<rparr>"

definition exampleOwnConfig :: "unit VectorConfig" where
  "exampleOwnConfig = \<lparr>Sources = [extractedOwnSource], Transforms = [], Sinks = [sinkDefault],
     AgentSettings = ()\<rparr>"

definition danglingPipeline :: Pipeline where
  "danglingPipeline = ownPipeline\<lparr>
     spec_Sinks := Some (Decoded [(''out'', Decoded \<lparr>sink_Name = [], sink_Type = ''console'',
       sink_Inputs = [''nope''], sink_Options = None, sink_OptionsHash = []\<rparr>)])\<rparr>"

definition exampleDanglingConfig :: "unit VectorConfig" where
  "exampleDanglingConfig = \<lparr>Sources = [extractedOwnSource], Transforms = [],
     Sinks = [\<lparr>sink_Name = ''app3.r.out'', sink_Type = ''console'',
       sink_Inputs = [''app3.r.nope''], sink_Options = None, sink_OptionsHash = ''null''\<rparr>],
     AgentSettings = ()\<rparr>"

definition exampleDefaultConfig :: "unit VectorConfig" where
  "exampleDefaultConfig = \<lparr>Sources = [sourceDefault], Transforms = [], Sinks = [sinkDefault],
     AgentSettings = ()\<rparr>"

definition resolvedPipeline :: Pipeline where
  "resolvedPipeline = emptyPipeline\<lparr>p_Type := ClusterPipelineKind, p_Name := ''p'',
     spec_Sources := Some (Decoded [(''logs'', Decoded (emptySource\<lparr>src_Type := ''kubernetes_logs'',
       src_ExtraLabelSelector := ''app=foo'', src_ExtraNamespaceLabelSelector := ''team=x''\<rparr>))]),
     spec_Transforms := Some (Decoded [(''parse'', Decoded \<lparr>tr_Name = [], tr_Type = ''remap'',
       tr_Inputs = [''logs''], tr_Route = [], tr_Options = None\<rparr>)]),
     spec_Sinks := Some (Decoded [(''out'', Decoded \<lparr>sink_Name = [], sink_Type = ''console'',
       sink_Inputs = [''parse''], sink_Options = None, sink_OptionsHash = []\<rparr>)])\<rparr>"

definition exampleResolvedConfig :: "unit VectorConfig" where
  "exampleResolvedConfig = \<lparr>
     Sources = [emptySource\<lparr>src_Name := ''.p.logs'', src_Type := ''kubernetes_logs'',
       src_ExtraLabelSelector := ''app=foo'', src_ExtraNamespaceLabelSelector := ''team=x''\<rparr>],
     Transforms = [\<lparr>tr_Name = ''.p.parse'', tr_Type = ''remap'', tr_Inputs = [''.p.logs''],
       tr_Route = [], tr_Options = None\<rparr>],
     Sinks = [\<lparr>sink_Name = ''.p.out'', sink_Type = ''console'', sink_Inputs = [''.p.parse''],
       sink_Options = None, sink_OptionsHash = ''null''\<rparr>],
     AgentSettings = ()\<rparr>"

definition plainBuilder :: "Pipeline list \<Rightarrow> unit Builder" where
  "plainBuilder pipelines = \<lparr>Pipelines = pipelines, Spec_Agent_InternalMetrics = False,
     Spec_MergeKubernetesSources = False, Spec_MergeSinks = False, Settings = ()\<rparr>"

definition sameHashSinks :: "Sink list" where
  "sameHashSinks = [
     \<lparr>sink_Name = ''ns.p.a'', sink_Type = ''console'', sink_Inputs = [''ns.p.src1''],
      sink_Options = None, sink_OptionsHash = ''17''\<rparr>,
     \<lparr>sink_Name = ''ns.p.b'', sink_Type = ''console'', sink_Inputs = [''ns.p.src2''],
      sink_Options = None, sink_OptionsHash = ''17''\<rparr>,
     \<lparr>sink_Name = ''ns.p.c'', sink_Type = ''blackhole'', sink_Inputs = [''ns.p.src1''],
      sink_Options = None, sink_OptionsHash = ''17''\<rparr>,
     \<lparr>sink_Name = ''ns.p.e'', sink_Type = ''blackhole'', sink_Inputs = [''ns.p.src2''],
      sink_Options = None, sink_OptionsHash = ''17''\<rparr>]"

section \<open>The resource synchroniser\<close>

text \<open>
  The package \<open>k8sutils\<close> creates or updates one object of the cluster API through
  a client. An object carries its metadata (the fields \<open>Labels\<close>, \<open>Name\<close>, ... of
  the Go structs are promoted from the embedded \<open>ObjectMeta\<close>) and the fields of its
  kind; the records keep the identity, two server-managed metadata fields, the labels
  and the fields of the kind that the synchroniser touches or that the server manages
  (the status). A field value stands for its class under semantic deep equality (a map
  is listed in key order, a \<open>nil\<close> and an empty map or slice are one value), so that
  \<open>equality.Semantic.DeepEqual\<close> of two objects is their equality.
\<close>

record ObjectMeta =
  om_Name :: string
  om_Namespace :: string
  om_UID :: string
  om_ResourceVersion :: string
  om_Labels :: "(string \<times> string) list"

record Service =
  svc_Meta :: ObjectMeta
  svc_Spec :: jvalue
  svc_Status :: jvalue

record Secret =
  sec_Meta :: ObjectMeta
  sec_Data :: "(string \<times> string) list"
  sec_Type :: string

record DaemonSet =
  ds_Meta :: ObjectMeta
  ds_Spec :: jvalue
  ds_Status :: jvalue

record StatefulSet =
  sts_Meta :: ObjectMeta
  sts_Spec :: jvalue
  sts_Status :: jvalue

record ServiceAccount =
  sa_Meta :: ObjectMeta
  sa_Secrets :: "jvalue list"

record ClusterRole =
  cr_Meta :: ObjectMeta
  cr_Rules :: "jvalue list"

record ClusterRoleBinding =
  crb_Meta :: ObjectMeta
  crb_Subjects :: "jvalue list"
  crb_RoleRef :: jvalue

text \<open>
  The client is the cluster API as the three calls of a reconcile function see it: what
  \<open>Create\<close> answers for the desired object (a \<open>nil\<close> pointer is \<open>None\<close>), what
  \<open>Get\<close> answers for a key, the object it fills in or an error, and what \<open>Update\<close>
  answers for an object. A failed \<open>Create\<close> leaves the desired object as it was. The
  outcome of a reconcile function is the list of the calls it made, in order, and how it
  ended: it returned an error or \<open>nil\<close> (its \<open>*reconcile.Result\<close> is always
  \<open>nil\<close>), or it panicked.
\<close>

datatype api_error = AlreadyExists | NotFound | Conflict | ServerError

record 'o client =
  c_Create :: "'o option \<Rightarrow> api_error option"
  c_Get :: "string \<times> string \<Rightarrow> api_error + 'o"
  c_Update :: "'o \<Rightarrow> api_error option"

datatype 'o call = CreateCall "'o option" | GetCall "string \<times> string" | UpdateCall 'o

datatype sync_result = Panicked | Returned "api_error option"

type_synonym 'o outcome = "'o call list \<times> sync_result"

definition IsAlreadyExists :: "api_error \<Rightarrow> bool" where
  "IsAlreadyExists err = (err = AlreadyExists)"

definition ObjectKeyFromObject :: "ObjectMeta \<Rightarrow> string \<times> string" where
  "ObjectKeyFromObject meta = (om_Namespace meta, om_Name meta)"

text \<open>
  The seven reconcile functions. Each is reached through its \<open>CreateOrUpdate\<close>
  wrapper, which passes a pointer of the function's own type, so the type assertion
  \<open>obj.(*T)\<close> succeeds; \<open>client.ObjectKeyFromObject\<close> reads the name of the desired
  object and panics on a \<open>nil\<close> pointer. The object that \<open>Get\<close> filled in is
  compared with the desired object as a whole.
\<close>

definition reconcileService :: "Service option \<Rightarrow> Service client \<Rightarrow> Service outcome" where
  "reconcileService desired c =
     (case c_Create c desired of
        None \<Rightarrow> ([CreateCall desired], Returned None)
      | Some err \<Rightarrow>
          if IsAlreadyExists err then
            (case desired of
               None \<Rightarrow> ([CreateCall desired], Panicked)
             | Some d \<Rightarrow>
                 let key = ObjectKeyFromObject (svc_Meta d) in
                 (case c_Get c key of
                    Inl err \<Rightarrow> ([CreateCall desired, GetCall key], Returned (Some err))
                  | Inr existing \<Rightarrow>
                      if existing \<noteq> d then
                        let existing = existing\<lparr>svc_Spec := svc_Spec d\<rparr>;
                            existing = existing\<lparr>svc_Meta := (svc_Meta existing)\<lparr>om_Labels := om_Labels (svc_Meta d)\<rparr>\<rparr>
                        in ([CreateCall desired, GetCall key, UpdateCall existing],
                            Returned (c_Update c existing))
                      else ([CreateCall desired, GetCall key], Returned None)))
          else ([CreateCall desired], Returned (Some err)))"

definition reconcileSecret :: "Secret option \<Rightarrow> Secret client \<Rightarrow> Secret outcome" where
  "reconcileSecret desired c =
     (case c_Create c desired of
        None \<Rightarrow> ([CreateCall desired], Returned None)
      | Some err \<Rightarrow>
          if IsAlreadyExists err then
            (case desired of
               None \<Rightarrow> ([CreateCall desired], Panicked)
             | Some d \<Rightarrow>
                 let key = ObjectKeyFromObject (sec_Meta d) in
                 (case c_Get c key of
                    Inl err \<Rightarrow> ([CreateCall desired, GetCall key], Returned (Some err))
                  | Inr existing \<Rightarrow>
                      if existing \<noteq> d then
                        let existing = existing\<lparr>sec_Data := sec_Data d\<rparr>;
                            existing = existing\<lparr>sec_Meta := (sec_Meta existing)\<lparr>om_Labels := om_Labels (sec_Meta d)\<rparr>\<rparr>
                        in ([CreateCall desired, GetCall key, UpdateCall existing],
                            Returned (c_Update c existing))
                      else ([CreateCall desired, GetCall key], Returned None)))
          else ([CreateCall desired], Returned (Some err)))"

definition reconcileDaemonSet :: "DaemonSet option \<Rightarrow> DaemonSet client \<Rightarrow> DaemonSet outcome" where
  "reconcileDaemonSet desired c =
     (case c_Create c desired of
        None \<Rightarrow> ([CreateCall desired], Returned None)
      | Some err \<Rightarrow>
          if IsAlreadyExists err then
            (case desired of
               None \<Rightarrow> ([CreateCall desired], Panicked)
             | Some d \<Rightarrow>
                 let key = ObjectKeyFromObject (ds_Meta d) in
                 (case c_Get c key of
                    Inl err \<Rightarrow> ([CreateCall desired, GetCall key], Returned (Some err))
                  | Inr existing \<Rightarrow>
                      if existing \<noteq> d then
                        let existing = existing\<lparr>ds_Spec := ds_Spec d\<rparr>;
                            existing = existing\<lparr>ds_Meta := (ds_Meta existing)\<lparr>om_Labels := om_Labels (ds_Meta d)\<rparr>\<rparr>
                        in ([CreateCall desired, GetCall key, UpdateCall existing],
                            Returned (c_Update c existing))
                      else ([CreateCall desired, GetCall key], Returned None)))
          else ([CreateCall desired], Returned (Some err)))"

definition reconcileStatefulSet :: "StatefulSet option \<Rightarrow> StatefulSet client \<Rightarrow> StatefulSet outcome" where
  "reconcileStatefulSet desired c =
     (case c_Create c desired of
        None \<Rightarrow> ([CreateCall desired], Returned None)
      | Some err \<Rightarrow>
          if IsAlreadyExists err then
            (case desired of
               None \<Rightarrow> ([CreateCall desired], Panicked)
             | Some d \<Rightarrow>
                 let key = ObjectKeyFromObject (sts_Meta d) in
                 (case c_Get c key of
                    Inl err \<Rightarrow> ([CreateCall desired, GetCall key], Returned (Some err))
                  | Inr existing \<Rightarrow>
                      if existing \<noteq> d then
                        let existing = existing\<lparr>sts_Spec := sts_Spec d\<rparr>;
                            existing = existing\<lparr>sts_Meta := (sts_Meta existing)\<lparr>om_Labels := om_Labels (sts_Meta d)\<rparr>\<rparr>
                        in ([CreateCall desired, GetCall key, UpdateCall existing],
                            Returned (c_Update c existing))
                      else ([CreateCall desired, GetCall key], Returned None)))
          else ([CreateCall desired], Returned (Some err)))"

definition reconcileServiceAccount :: "ServiceAccount option \<Rightarrow> ServiceAccount client \<Rightarrow> ServiceAccount outcome" where
  "reconcileServiceAccount desired c =
     (case c_Create c desired of
        None \<Rightarrow> ([CreateCall desired], Returned None)
      | Some err \<Rightarrow>
          if IsAlreadyExists err then
            (case desired of
               None \<Rightarrow> ([CreateCall desired], Panicked)
             | Some d \<Rightarrow>
                 let key = ObjectKeyFromObject (sa_Meta d) in
                 (case c_Get c key of
                    Inl err \<Rightarrow> ([CreateCall desired, GetCall key], Returned (Some err))
                  | Inr existing \<Rightarrow>
                      ([CreateCall desired, GetCall key], Returned None)))
          else ([CreateCall desired], Returned (Some err)))"

definition reconcileClusterRole :: "ClusterRole option \<Rightarrow> ClusterRole client \<Rightarrow> ClusterRole outcome" where
  "reconcileClusterRole desired c =
     (case c_Create c desired of
        None \<Rightarrow> ([CreateCall desired], Returned None)
      | Some err \<Rightarrow>
          if IsAlreadyExists err then
            (case desired of
               None \<Rightarrow> ([CreateCall desired], Panicked)
             | Some d \<Rightarrow>
                 let key = ObjectKeyFromObject (cr_Meta d) in
                 (case c_Get c key of
                    Inl err \<Rightarrow> ([CreateCall desired, GetCall key], Returned (Some err))
                  | Inr existing \<Rightarrow>
                      if existing \<noteq> d then
                        let existing = existing\<lparr>cr_Rules := cr_Rules d\<rparr>
                        in ([CreateCall desired, GetCall key, UpdateCall existing],
                            Returned (c_Update c existing))
                      else ([CreateCall desired, GetCall key], Returned None)))
          else ([CreateCall desired], Returned (Some err)))"

definition reconcileClusterRoleBinding :: "ClusterRoleBinding option \<Rightarrow> ClusterRoleBinding client \<Rightarrow> ClusterRoleBinding outcome" where
  "reconcileClusterRoleBinding desired c =
     (case c_Create c desired of
        None \<Rightarrow> ([CreateCall desired], Returned None)
      | Some err \<Rightarrow>
          if IsAlreadyExists err then
            (case desired of
               None \<Rightarrow> ([CreateCall desired], Panicked)
             | Some d \<Rightarrow>
                 let key = ObjectKeyFromObject (crb_Meta d) in
                 (case c_Get c key of
                    Inl err \<Rightarrow> ([CreateCall desired, GetCall key], Returned (Some err))
                  | Inr existing \<Rightarrow>
                      if existing \<noteq> d then
                        let existing = existing\<lparr>crb_RoleRef := crb_RoleRef d\<rparr>;
                            existing = existing\<lparr>crb_Subjects := crb_Subjects d\<rparr>
                        in ([CreateCall desired, GetCall key, UpdateCall existing],
                            Returned (c_Update c existing))
                      else ([CreateCall desired, GetCall key], Returned None)))
          else ([CreateCall desired], Returned (Some err)))"

section \<open>Vocabulary of the synchroniser\<close>

text \<open>The objects that a reconcile function sent to \<open>Update\<close>, in order.\<close>

definition updateCalls :: "'o outcome \<Rightarrow> 'o list" where
  "updateCalls outcome =
     concat (map (\<lambda>call. case call of UpdateCall x \<Rightarrow> [x] | _ \<Rightarrow> []) (fst outcome))"

section \<open>Example objects\<close>

text \<open>
  A desired object of every kind as the operator builds it, without server-managed
  metadata, and the same object as the cluster holds it, with a uid and a resource
  version; a service whose stored spec has drifted; a client of a cluster that already
  holds an object and accepts every update.
\<close>

definition desiredMeta :: ObjectMeta where
  "desiredMeta = \<lparr>om_Name = ''vector'', om_Namespace = ''obs'', om_UID = [],
     om_ResourceVersion = [], om_Labels = [(''app'', ''vector'')]\<rparr>"

definition storedMeta :: ObjectMeta where
  "storedMeta = desiredMeta\<lparr>om_UID := ''u-1'', om_ResourceVersion := ''41''\<rparr>"

definition desiredService :: Service where
  "desiredService = \<lparr>svc_Meta = desiredMeta, svc_Spec = JObj [(''port'', JNum 9090)],
     svc_Status = JNull\<rparr>"

definition storedService :: Service where
  "storedService = desiredService\<lparr>svc_Meta := storedMeta\<rparr>"

definition driftedService :: Service where
  "driftedService = storedService\<lparr>svc_Spec := JObj [(''port'', JNum 8080)]\<rparr>"

definition desiredSecret :: Secret where
  "desiredSecret = \<lparr>sec_Meta = desiredMeta, sec_Data = [(''agent.json'', ''{}'')],
     sec_Type = ''Opaque''\<rparr>"

definition desiredDaemonSet :: DaemonSet where
  "desiredDaemonSet = \<lparr>ds_Meta = desiredMeta, ds_Spec = JObj [(''image'', JStr ''vector'')],
     ds_Status = JNull\<rparr>"

definition desiredStatefulSet :: StatefulSet where
  "desiredStatefulSet = \<lparr>sts_Meta = desiredMeta, sts_Spec = JObj [(''replicas'', JNum 1)],
     sts_Status = JNull\<rparr>"

definition desiredServiceAccount :: ServiceAccount where
  "desiredServiceAccount = \<lparr>sa_Meta = desiredMeta, sa_Secrets = []\<rparr>"

definition desiredClusterRole :: ClusterRole where
  "desiredClusterRole = \<lparr>cr_Meta = desiredMeta\<lparr>om_Namespace := []\<rparr>,
     cr_Rules = [JObj [(''verbs'', JArr [JStr ''list'', JStr ''watch''])]]\<rparr>"

definition desiredClusterRoleBinding :: ClusterRoleBinding where
  "desiredClusterRoleBinding = \<lparr>crb_Meta = desiredMeta\<lparr>om_Namespace := []\<rparr>,
     crb_Subjects = [JStr ''vector''], crb_RoleRef = JStr ''vector''\<rparr>"

definition existsClient :: "'o \<Rightarrow> 'o client" where
  "existsClient stored = \<lparr>c_Create = (\<lambda>desired. Some AlreadyExists),
     c_Get = (\<lambda>key. Inr stored), c_Update = (\<lambda>existing. None)\<rparr>"

section \<open>Properties of the kubernetes-log merge pass\<close>


lemma map_upd_add_front:
  "r ++ ([k \<mapsto> v] ++ M) = r(k \<mapsto> v) ++ M"
  by (simp only: map_add_assoc map_add_upd map_add_empty)

lemma collectRoutes_fst:
  "fst (collectRoutes ss m r) = m @ filter (\<lambda>s. \<not> eligible s) ss"
  by (induction ss arbitrary: m r) simp_all

lemma collectRoutes_map_of:
  "map_of (snd (collectRoutes ss m r)) =
     map_of r ++ map_of (rev (map (\<lambda>s. (src_Name s, routeExpr s)) (filter eligible ss)))"
proof (induction ss arbitrary: m r)
  case Nil
  then show ?case by simp
next
  case (Cons s ss)
  show ?case
  proof (cases "eligible s")
    case True
    then have "map_of (snd (collectRoutes (s # ss) m r)) =
        map_of (snd (collectRoutes ss m (AList.update (src_Name s) (routeExpr s) r)))"
      by simp
    also have "\<dots> = map_of (AList.update (src_Name s) (routeExpr s) r) ++
          map_of (rev (map (\<lambda>s. (src_Name s, routeExpr s)) (filter eligible ss)))"
      by (rule Cons.IH)
    also have "\<dots> = (map_of r)(src_Name s \<mapsto> routeExpr s) ++
          map_of (rev (map (\<lambda>s. (src_Name s, routeExpr s)) (filter eligible ss)))"
      by (simp only: update_conv')
    also have "\<dots> = map_of r ++
          map_of (rev (map (\<lambda>s. (src_Name s, routeExpr s)) (filter eligible (s # ss))))"
      using True by (simp add: map_upd_add_front)
    finally show ?thesis .
  next
    case False
    with Cons show ?thesis by simp
  qed
qed

lemma routes_dom:
  "dom (map_of (snd (collectRoutes ss [] []))) = src_Name ` {s \<in> set ss. eligible s}"
  by (auto simp: collectRoutes_map_of dom_map_of_conv_image_fst image_iff)

lemma routes_empty_iff:
  "snd (collectRoutes ss [] []) = [] \<longleftrightarrow> (\<forall>s\<in>set ss. \<not> eligible s)"
proof -
  have "snd (collectRoutes ss [] []) = [] \<longleftrightarrow> dom (map_of (snd (collectRoutes ss [] []))) = {}"
    by (simp add: map_of_eq_empty_iff)
  also have "\<dots> \<longleftrightarrow> (\<forall>s\<in>set ss. \<not> eligible s)"
    unfolding routes_dom by auto
  finally show ?thesis .
qed

lemma routes_defined_iff:
  "map_of (snd (collectRoutes (Sources config) [] [])) i \<noteq> None \<longleftrightarrow>
     i \<in> set (retiredNames config)"
  using routes_dom[of "Sources config"] by (auto simp: retiredNames_def dom_def)

lemma route_pairs_member:
  "(n, e) \<in> set (rev (map (\<lambda>s. (src_Name s, routeExpr s)) (filter eligible ss))) \<longleftrightarrow>
     (\<exists>s\<in>set ss. eligible s \<and> n = src_Name s \<and> e = routeExpr s)"
  by (simp add: image_iff) blast

lemma routes_entry_origin:
  assumes "s \<in> set ss" "eligible s"
  shows "\<exists>s'\<in>set ss. eligible s' \<and> src_Name s' = src_Name s \<and>
           map_of (snd (collectRoutes ss [] [])) (src_Name s) = Some (routeExpr s')"
proof -
  let ?L = "rev (map (\<lambda>s. (src_Name s, routeExpr s)) (filter eligible ss))"
  have "(src_Name s, routeExpr s) \<in> set ?L"
    unfolding route_pairs_member using assms by blast
  from weak_map_of_SomeI[OF this] obtain e where e: "map_of ?L (src_Name s) = Some e" ..
  from map_of_SomeD[OF e] obtain s' where s': "s' \<in> set ss" "eligible s'"
      "src_Name s = src_Name s'" "e = routeExpr s'"
    unfolding route_pairs_member by blast
  have "map_of (snd (collectRoutes ss [] [])) (src_Name s) = Some (routeExpr s')"
    unfolding collectRoutes_map_of using e s'(4) by simp
  with s' show ?thesis by metis
qed

lemma routes_lookup:
  assumes "s \<in> set ss" "eligible s"
    and "\<forall>s'\<in>set ss. eligible s' \<and> src_Name s' = src_Name s \<longrightarrow> routeExpr s' = routeExpr s"
  shows "map_of (snd (collectRoutes ss [] [])) (src_Name s) = Some (routeExpr s)"
proof -
  from routes_entry_origin[OF assms(1,2)] obtain s' where s': "s' \<in> set ss" "eligible s'"
      "src_Name s' = src_Name s"
      "map_of (snd (collectRoutes ss [] [])) (src_Name s) = Some (routeExpr s')"
    by blast
  from assms(3) s'(1,2,3) have "routeExpr s' = routeExpr s" by blast
  with s'(4) show ?thesis by simp
qed

lemma routes_last_wins:
  assumes "ss = pre @ s # post" "eligible s"
    and "\<forall>s'\<in>set post. eligible s' \<longrightarrow> src_Name s' \<noteq> src_Name s"
  shows "map_of (snd (collectRoutes ss [] [])) (src_Name s) = Some (routeExpr s)"
proof -
  let ?f = "\<lambda>s. (src_Name s, routeExpr s)"
  have "src_Name s \<notin> fst ` set (rev (map ?f (filter eligible post)))"
    using assms(3) by auto
  then have none: "map_of (rev (map ?f (filter eligible post))) (src_Name s) = None"
    unfolding map_of_eq_None_iff .
  have eq: "map_of (snd (collectRoutes ss [] [])) =
        map_of (rev (map ?f (filter eligible post)) @ ?f s # rev (map ?f (filter eligible pre)))"
    unfolding collectRoutes_map_of assms(1) using assms(2) by simp
  show ?thesis
    unfolding eq using none by (simp add: map_of_append map_add_def)
qed

lemma generateVrlFilter_pod_example:
  \<open>generateVrlFilter ''app=foo'' PodSelectorType = ''.kubernetes.pod_labels."app" == "foo"''\<close>
  by code_simp

lemma generateVrlFilter_ns_example:
  \<open>generateVrlFilter ''team=x'' NamespaceSelectorType =
    ''.kubernetes.namespace_labels."team" == "x"''\<close>
  by code_simp

lemma routeExpr_example:
  assumes "src_ExtraLabelSelector s = ''app=foo''" "src_ExtraNamespaceLabelSelector s = ''team=x''"
  shows \<open>routeExpr s =
    ''.kubernetes.pod_labels."app" == "foo"&&.kubernetes.namespace_labels."team" == "x"''\<close>
  unfolding routeExpr_def assms generateVrlFilter_pod_example generateVrlFilter_ns_example
  by simp

lemma mergeKubernetesSources_eligible:
  assumes "\<exists>s\<in>set (Sources config). eligible s"
  shows "mergeKubernetesSources config = config\<lparr>
      Sources := filter (\<lambda>s. \<not> eligible s) (Sources config) @
        [emptySource\<lparr>src_Name := MergedKubernetesSourceName, src_Type := KubernetesSourceType\<rparr>],
      Transforms := map (\<lambda>t. t\<lparr>tr_Inputs :=
          rewriteInputs (snd (collectRoutes (Sources config) [] [])) (tr_Inputs t)\<rparr>) (Transforms config) @
        [\<lparr>tr_Name = MergedSourceTransformName, tr_Type = RouteTransformType,
          tr_Inputs = [MergedKubernetesSourceName],
          tr_Route = snd (collectRoutes (Sources config) [] []), tr_Options = None\<rparr>],
      Sinks := map (\<lambda>t. t\<lparr>sink_Inputs :=
          rewriteInputs (snd (collectRoutes (Sources config) [] [])) (sink_Inputs t)\<rparr>) (Sinks config)\<rparr>"
proof -
  have ne: "snd (collectRoutes (Sources config) [] []) \<noteq> []"
    using assms routes_empty_iff[of "Sources config"] by blast
  have fst: "fst (collectRoutes (Sources config) [] []) = filter (\<lambda>s. \<not> eligible s) (Sources config)"
    by (simp add: collectRoutes_fst)
  show ?thesis
    unfolding mergeKubernetesSources_def using ne fst
    by (simp add: case_prod_beta Let_def)
qed

lemma mergeKubernetesSources_none:
  assumes "\<not> (\<exists>s\<in>set (Sources config). eligible s)"
  shows "mergeKubernetesSources config = config"
proof -
  have "snd (collectRoutes (Sources config) [] []) = []"
    using assms routes_empty_iff[of "Sources config"] by blast
  then show ?thesis
    unfolding mergeKubernetesSources_def by (simp add: case_prod_beta Let_def)
qed

lemma rewriteInputs_retired:
  "rewriteInputs (snd (collectRoutes (Sources config) [] [])) inputs =
     map (\<lambda>i. if i \<in> set (retiredNames config) then MergedSourceTransformName @ ''.'' @ i else i) inputs"
  unfolding rewriteInputs_def using routes_defined_iff[of config] by simp


text \<open>
  Claim C7, as amended. When some source is eligible, the kubernetes-log merge pass
  rewrites every input of every transform and sink that names a retired source to
  \<open>merged.\<close> followed by the retired name and leaves every other input as it is;
  it appends the routing transform \<open>merged\<close>, whose route table has exactly the
  retired names as keys. The entry under a name is the expression of the last eligible
  source of that name: a retired source finds its own expression there when no later
  eligible source has its name, or when the eligible sources of its name agree on the
  expression, as they do when names are unique. For the selectors \<open>app=foo\<close> and
  \<open>team=x\<close> the expression is the literal string of the specification. When no
  source is eligible the configuration is returned unchanged.
\<close>

theorem kubernetes_merge_rewrites_inputs:
  fixes config :: "'a VectorConfig"
  shows \<open>((\<exists>s\<in>set (Sources config). eligible s) \<longrightarrow>
      butlast (Transforms (mergeKubernetesSources config)) =
        map (\<lambda>t. t\<lparr>tr_Inputs := map (\<lambda>i. if i \<in> set (retiredNames config)
                                            then MergedSourceTransformName @ ''.'' @ i else i)
                                   (tr_Inputs t)\<rparr>) (Transforms config) \<and>
      Sinks (mergeKubernetesSources config) =
        map (\<lambda>t. t\<lparr>sink_Inputs := map (\<lambda>i. if i \<in> set (retiredNames config)
                                              then MergedSourceTransformName @ ''.'' @ i else i)
                                     (sink_Inputs t)\<rparr>) (Sinks config) \<and>
      tr_Name (last (Transforms (mergeKubernetesSources config))) = MergedSourceTransformName \<and>
      tr_Type (last (Transforms (mergeKubernetesSources config))) = RouteTransformType \<and>
      dom (map_of (tr_Route (last (Transforms (mergeKubernetesSources config))))) = set (retiredNames config) \<and>
      (\<forall>s\<in>set (Sources config). eligible s \<longrightarrow>
         (\<forall>s'\<in>set (Sources config). eligible s' \<and> src_Name s' = src_Name s \<longrightarrow>
              routeExpr s' = routeExpr s) \<longrightarrow>
         map_of (tr_Route (last (Transforms (mergeKubernetesSources config)))) (src_Name s) =
           Some (routeExpr s))) \<and>
    (\<forall>s. src_ExtraLabelSelector s = ''app=foo'' \<and> src_ExtraNamespaceLabelSelector s = ''team=x'' \<longrightarrow>
       routeExpr s =
         ''.kubernetes.pod_labels."app" == "foo"&&.kubernetes.namespace_labels."team" == "x"'') \<and>
    (\<not> (\<exists>s\<in>set (Sources config). eligible s) \<longrightarrow> mergeKubernetesSources config = config) \<and>
    (\<forall>pre s post. Sources config = pre @ s # post \<and> eligible s \<and>
       (\<forall>s'\<in>set post. eligible s' \<longrightarrow> src_Name s' \<noteq> src_Name s) \<longrightarrow>
       map_of (tr_Route (last (Transforms (mergeKubernetesSources config)))) (src_Name s) =
         Some (routeExpr s))\<close>
proof (intro conjI impI allI ballI)
  assume e: "\<exists>s\<in>set (Sources config). eligible s"
  note m = mergeKubernetesSources_eligible[OF e]
  show "butlast (Transforms (mergeKubernetesSources config)) =
        map (\<lambda>t. t\<lparr>tr_Inputs := map (\<lambda>i. if i \<in> set (retiredNames config)
                                            then MergedSourceTransformName @ ''.'' @ i else i)
                                   (tr_Inputs t)\<rparr>) (Transforms config)"
    by (simp add: m rewriteInputs_retired butlast_append)
  show "Sinks (mergeKubernetesSources config) =
        map (\<lambda>t. t\<lparr>sink_Inputs := map (\<lambda>i. if i \<in> set (retiredNames config)
                                              then MergedSourceTransformName @ ''.'' @ i else i)
                                     (sink_Inputs t)\<rparr>) (Sinks config)"
    by (simp add: m rewriteInputs_retired)
  show "tr_Name (last (Transforms (mergeKubernetesSources config))) = MergedSourceTransformName"
    by (simp add: m)
  show "tr_Type (last (Transforms (mergeKubernetesSources config))) = RouteTransformType"
    by (simp add: m)
  show "dom (map_of (tr_Route (last (Transforms (mergeKubernetesSources config))))) = set (retiredNames config)"
    by (simp add: m routes_dom retiredNames_def)
next
  fix s
  assume e: "\<exists>s\<in>set (Sources config). eligible s"
    and s: "s \<in> set (Sources config)" "eligible s"
    and agree: "\<forall>s'\<in>set (Sources config). eligible s' \<and> src_Name s' = src_Name s \<longrightarrow>
              routeExpr s' = routeExpr s"
  show "map_of (tr_Route (last (Transforms (mergeKubernetesSources config)))) (src_Name s) = Some (routeExpr s)"
    using routes_lookup[OF s agree] by (simp add: mergeKubernetesSources_eligible[OF e])
next
  fix s :: Source
  assume "src_ExtraLabelSelector s = ''app=foo'' \<and> src_ExtraNamespaceLabelSelector s = ''team=x''"
  then show \<open>routeExpr s =
         ''.kubernetes.pod_labels."app" == "foo"&&.kubernetes.namespace_labels."team" == "x"''\<close>
    by (simp add: routeExpr_example)
next
  assume "\<not> (\<exists>s\<in>set (Sources config). eligible s)"
  then show "mergeKubernetesSources config = config"
    by (rule mergeKubernetesSources_none)
next
  fix pre s post
  assume h: "Sources config = pre @ s # post \<and> eligible s \<and>
       (\<forall>s'\<in>set post. eligible s' \<longrightarrow> src_Name s' \<noteq> src_Name s)"
  then have e: "\<exists>s\<in>set (Sources config). eligible s" by auto
  from h have "map_of (snd (collectRoutes (Sources config) [] [])) (src_Name s) =
      Some (routeExpr s)"
    using routes_last_wins[of "Sources config" pre s post] by blast
  then show "map_of (tr_Route (last (Transforms (mergeKubernetesSources config)))) (src_Name s) =
         Some (routeExpr s)"
    by (simp add: mergeKubernetesSources_eligible[OF e])
qed

lemma exampleMergeConfig_eligible: "\<exists>s\<in>set (Sources exampleMergeConfig). eligible s"
  by (simp add: exampleMergeConfig_def eligible_def emptySource_def KubernetesSourceType_def)

lemma exampleMergeConfig_retired:
  "retiredNames exampleMergeConfig = [''app1.p.logs'', ''app2.p.logs'']"
  by (simp add: retiredNames_def exampleMergeConfig_def eligible_def emptySource_def
      KubernetesSourceType_def)

lemma exampleUnmergedConfig_none: "\<not> (\<exists>s\<in>set (Sources exampleUnmergedConfig). eligible s)"
  by (simp add: exampleUnmergedConfig_def eligible_def emptySource_def sourceDefault_def
      KubernetesSourceType_def)

theorem kubernetes_merge_rewrites_inputs_witness:
  \<open>(\<exists>s\<in>set (Sources exampleMergeConfig). eligible s) \<and>
   map tr_Inputs (butlast (Transforms (mergeKubernetesSources exampleMergeConfig))) =
     [[''merged.app1.p.logs'', ''app3.p.file'']] \<and>
   map sink_Inputs (Sinks (mergeKubernetesSources exampleMergeConfig)) =
     [[''merged.app2.p.logs'', ''app1.p.parse'']] \<and>
   tr_Name (last (Transforms (mergeKubernetesSources exampleMergeConfig))) = ''merged'' \<and>
   dom (map_of (tr_Route (last (Transforms (mergeKubernetesSources exampleMergeConfig))))) =
     {''app1.p.logs'', ''app2.p.logs''} \<and>
   map_of (tr_Route (last (Transforms (mergeKubernetesSources exampleMergeConfig)))) ''app1.p.logs'' =
     Some ''.kubernetes.pod_labels."app" == "foo"&&.kubernetes.namespace_labels."team" == "x"'' \<and>
   \<not> (\<exists>s\<in>set (Sources exampleUnmergedConfig). eligible s) \<and>
   mergeKubernetesSources exampleUnmergedConfig = exampleUnmergedConfig \<and>
   Sources exampleClashConfig = [clashSource] @ (Sources exampleClashConfig ! 1) # [] \<and>
   eligible (Sources exampleClashConfig ! 1) \<and>
   map_of (tr_Route (last (Transforms (mergeKubernetesSources exampleClashConfig)))) ''.b.c.d'' =
     Some (routeExpr (Sources exampleClashConfig ! 1))\<close>
proof -
  note v = kubernetes_merge_rewrites_inputs[of exampleClashConfig, THEN conjunct2, THEN conjunct2,
      THEN conjunct2, rule_format, of "[clashSource]" "Sources exampleClashConfig ! 1" "[]"]
  have c1: "Sources exampleClashConfig = [clashSource] @ (Sources exampleClashConfig ! 1) # []"
    by (simp add: exampleClashConfig_def)
  have c2: "eligible (Sources exampleClashConfig ! 1)"
    by (simp add: exampleClashConfig_def eligible_def emptySource_def KubernetesSourceType_def)
  have c3: "\<forall>s'\<in>set []. eligible s' \<longrightarrow> src_Name s' \<noteq> src_Name (Sources exampleClashConfig ! 1)"
    by simp
  have c4: "src_Name (Sources exampleClashConfig ! 1) = ''.b.c.d''"
    by (simp add: exampleClashConfig_def)
  have lw: "map_of (tr_Route (last (Transforms (mergeKubernetesSources exampleClashConfig)))) ''.b.c.d'' =
     Some (routeExpr (Sources exampleClashConfig ! 1))"
    using v[OF conjI, OF c1 conjI, OF c2 c3] unfolding c4 .
  let ?s1 = "emptySource\<lparr>src_Name := ''app1.p.logs'', src_Type := ''kubernetes_logs'',
         src_ExtraLabelSelector := ''app=foo'', src_ExtraNamespaceLabelSelector := ''team=x''\<rparr>"
  note t = kubernetes_merge_rewrites_inputs[of exampleMergeConfig]
  note u = kubernetes_merge_rewrites_inputs[of exampleUnmergedConfig]
  note m = t[THEN conjunct1, THEN mp, OF exampleMergeConfig_eligible]
  note m1 = m[THEN conjunct1]
  note m2 = m[THEN conjunct2, THEN conjunct1]
  note m3 = m[THEN conjunct2, THEN conjunct2, THEN conjunct1]
  note m5 = m[THEN conjunct2, THEN conjunct2, THEN conjunct2, THEN conjunct2, THEN conjunct1]
  note m6 = m[THEN conjunct2, THEN conjunct2, THEN conjunct2, THEN conjunct2, THEN conjunct2]
  note ex = t[THEN conjunct2, THEN conjunct1, THEN spec, of ?s1, THEN mp]
  note un = u[THEN conjunct2, THEN conjunct2, THEN conjunct1, THEN mp,
      OF exampleUnmergedConfig_none]
  have sel: "src_ExtraLabelSelector ?s1 = ''app=foo'' \<and>
      src_ExtraNamespaceLabelSelector ?s1 = ''team=x''"
    by simp
  have nm1: "src_Name ?s1 = ''app1.p.logs''" by simp
  have s1: "?s1 \<in> set (Sources exampleMergeConfig)"
    by (simp add: exampleMergeConfig_def)
  have e1: "eligible ?s1"
    by (simp add: eligible_def emptySource_def KubernetesSourceType_def)
  have agree: "\<forall>s'\<in>set (Sources exampleMergeConfig). eligible s' \<and> src_Name s' = src_Name ?s1 \<longrightarrow>
      routeExpr s' = routeExpr ?s1"
    by (simp add: exampleMergeConfig_def)
  have route: \<open>map_of (tr_Route (last (Transforms (mergeKubernetesSources exampleMergeConfig)))) ''app1.p.logs'' =
     Some ''.kubernetes.pod_labels."app" == "foo"&&.kubernetes.namespace_labels."team" == "x"''\<close>
    using m6[THEN bspec, OF s1, THEN mp, OF e1, THEN mp, OF agree] ex[OF sel]
    unfolding nm1 by (rule trans[OF _ arg_cong[of _ _ Some]])
  have tin: "map tr_Inputs (butlast (Transforms (mergeKubernetesSources exampleMergeConfig))) =
     [[''merged.app1.p.logs'', ''app3.p.file'']]"
    unfolding m1 exampleMergeConfig_retired MergedSourceTransformName_def
    by (simp add: exampleMergeConfig_def)
  have sin: "map sink_Inputs (Sinks (mergeKubernetesSources exampleMergeConfig)) =
     [[''merged.app2.p.logs'', ''app1.p.parse'']]"
    unfolding m2 exampleMergeConfig_retired MergedSourceTransformName_def
    by (simp add: exampleMergeConfig_def)
  have nm: "tr_Name (last (Transforms (mergeKubernetesSources exampleMergeConfig))) = ''merged''"
    unfolding m3 MergedSourceTransformName_def by (rule refl)
  have dm: "dom (map_of (tr_Route (last (Transforms (mergeKubernetesSources exampleMergeConfig))))) =
     {''app1.p.logs'', ''app2.p.logs''}"
    unfolding m5 exampleMergeConfig_retired by simp
  show ?thesis
    using exampleMergeConfig_eligible tin sin nm dm route exampleUnmergedConfig_none un c1 c2 lw
    by (intro conjI)
qed

lemma clash_assembled:
  "assembleConfig exampleDeps (exampleBuilder [clashPipelineA, clashPipelineB]) =
     Inr exampleClashConfig"
  by code_simp

lemma clash_route:
  \<open>map_of (tr_Route (last (Transforms (mergeKubernetesSources exampleClashConfig))))
     (src_Name clashSource) =
   Some ''.kubernetes.pod_labels."app" == "bar"&&.kubernetes.namespace_labels."team" == "y"''\<close>
  by code_simp


theorem route_entry_overwritten_by_namesake:
  \<open>assembleConfig exampleDeps (exampleBuilder [clashPipelineA, clashPipelineB]) =
     Inr exampleClashConfig \<and>
   clashSource \<in> set (Sources exampleClashConfig) \<and> eligible clashSource \<and>
   src_ExtraLabelSelector clashSource = ''app=foo'' \<and>
   src_ExtraNamespaceLabelSelector clashSource = ''team=x'' \<and>
   map_of (tr_Route (last (Transforms (mergeKubernetesSources exampleClashConfig))))
     (src_Name clashSource) \<noteq>
   Some ''.kubernetes.pod_labels."app" == "foo"&&.kubernetes.namespace_labels."team" == "x"''\<close>
proof -
  have 1: "clashSource \<in> set (Sources exampleClashConfig)"
    by (simp add: exampleClashConfig_def)
  have 2: "eligible clashSource"
    by (simp add: clashSource_def eligible_def emptySource_def KubernetesSourceType_def)
  have 3: "src_ExtraLabelSelector clashSource = ''app=foo''"
    by (simp add: clashSource_def)
  have 4: "src_ExtraNamespaceLabelSelector clashSource = ''team=x''"
    by (simp add: clashSource_def)
  have 5: \<open>map_of (tr_Route (last (Transforms (mergeKubernetesSources exampleClashConfig))))
     (src_Name clashSource) \<noteq>
   Some ''.kubernetes.pod_labels."app" == "foo"&&.kubernetes.namespace_labels."team" == "x"''\<close>
    unfolding clash_route by simp
  from clash_assembled 1 2 3 4 5 show ?thesis by (intro conjI)
qed

text \<open>
  Claim C10. When the kubernetes-log merge pass retires at least one source, the
  emitted sources are the sources that were not eligible followed by one shared source
  that has only the fixed name \<open>mergedKubernetesSource\<close> and the type
  \<open>kubernetes_logs\<close>: no namespace-label, pod-label or field selector and no
  options. Every retired source has an entry in the route table of the routing
  transform, and the entry is the filter expression of an eligible source of that name.
\<close>

theorem merged_source_carries_no_selector:
  fixes config :: "'a VectorConfig"
  shows "(\<exists>s\<in>set (Sources config). eligible s) \<longrightarrow>
     Sources (mergeKubernetesSources config) =
       filter (\<lambda>s. \<not> eligible s) (Sources config) @
       [\<lparr>src_Name = MergedKubernetesSourceName, src_Type = KubernetesSourceType,
         src_ExtraNamespaceLabelSelector = [], src_ExtraLabelSelector = [],
         src_ExtraFieldSelector = [], src_Options = None\<rparr>] \<and>
     (\<forall>s\<in>set (Sources config). eligible s \<longrightarrow>
        (\<exists>s'\<in>set (Sources config). eligible s' \<and> src_Name s' = src_Name s \<and>
           map_of (tr_Route (last (Transforms (mergeKubernetesSources config)))) (src_Name s) =
             Some (routeExpr s')))"
proof (intro impI conjI ballI)
  assume e: "\<exists>s\<in>set (Sources config). eligible s"
  show "Sources (mergeKubernetesSources config) =
       filter (\<lambda>s. \<not> eligible s) (Sources config) @
       [\<lparr>src_Name = MergedKubernetesSourceName, src_Type = KubernetesSourceType,
         src_ExtraNamespaceLabelSelector = [], src_ExtraLabelSelector = [],
         src_ExtraFieldSelector = [], src_Options = None\<rparr>]"
    by (simp add: mergeKubernetesSources_eligible[OF e] emptySource_def)
next
  fix s
  assume e: "\<exists>s\<in>set (Sources config). eligible s"
    and s: "s \<in> set (Sources config)" "eligible s"
  show "\<exists>s'\<in>set (Sources config). eligible s' \<and> src_Name s' = src_Name s \<and>
           map_of (tr_Route (last (Transforms (mergeKubernetesSources config)))) (src_Name s) =
             Some (routeExpr s')"
    using routes_entry_origin[OF s] by (simp add: mergeKubernetesSources_eligible[OF e])
qed

theorem merged_source_carries_no_selector_witness:
  "(\<exists>s\<in>set (Sources exampleMergeConfig). eligible s) \<and>
   Sources (mergeKubernetesSources exampleMergeConfig) =
     [\<lparr>src_Name = ''app3.p.file'', src_Type = ''file'',
       src_ExtraNamespaceLabelSelector = [], src_ExtraLabelSelector = [],
       src_ExtraFieldSelector = [], src_Options = None\<rparr>,
      \<lparr>src_Name = ''mergedKubernetesSource'', src_Type = ''kubernetes_logs'',
       src_ExtraNamespaceLabelSelector = [], src_ExtraLabelSelector = [],
       src_ExtraFieldSelector = [], src_Options = None\<rparr>]"
proof -
  note t = merged_source_carries_no_selector[of exampleMergeConfig,
      THEN mp, OF exampleMergeConfig_eligible, THEN conjunct1]
  have "Sources (mergeKubernetesSources exampleMergeConfig) =
     [\<lparr>src_Name = ''app3.p.file'', src_Type = ''file'',
       src_ExtraNamespaceLabelSelector = [], src_ExtraLabelSelector = [],
       src_ExtraFieldSelector = [], src_Options = None\<rparr>,
      \<lparr>src_Name = ''mergedKubernetesSource'', src_Type = ''kubernetes_logs'',
       src_ExtraNamespaceLabelSelector = [], src_ExtraLabelSelector = [],
       src_ExtraFieldSelector = [], src_Options = None\<rparr>]"
    unfolding t
    by (simp add: exampleMergeConfig_def eligible_def emptySource_def KubernetesSourceType_def
        MergedKubernetesSourceName_def)
  with exampleMergeConfig_eligible show ?thesis by (intro conjI)
qed

section \<open>Properties of the sink merge pass\<close>


lemma lastIdx_append:
  "lastIdx h (m @ [s]) = (if sink_OptionsHash s = h then Some (length m) else lastIdx h m)"
  by (induction m) (auto split: option.splits)

lemma lastIdx_Some:
  "lastIdx h m = Some p \<Longrightarrow> p < length m \<and> sink_OptionsHash (m ! p) = h"
proof (induction m arbitrary: p)
  case Nil
  then show ?case by simp
next
  case (Cons x xs)
  show ?case
  proof (cases "lastIdx h xs")
    case None
    with Cons.prems show ?thesis by (simp split: if_splits)
  next
    case (Some i)
    with Cons.prems have p: "p = Suc i" by simp
    from Cons.IH[OF Some] show ?thesis by (simp add: p)
  qed
qed

lemma lastIdx_cong:
  "map sink_OptionsHash m = map sink_OptionsHash m' \<Longrightarrow> lastIdx h m = lastIdx h m'"
proof (induction m arbitrary: m')
  case Nil
  then show ?case by simp
next
  case (Cons x xs)
  then obtain y ys where m': "m' = y # ys" by (cases m') auto
  with Cons.prems have "sink_OptionsHash x = sink_OptionsHash y"
    "map sink_OptionsHash xs = map sink_OptionsHash ys" by simp_all
  with Cons.IH[of ys] show ?case by (simp add: m')
qed

lemma lastIdx_update:
  assumes "sink_OptionsHash v = sink_OptionsHash (m ! p)"
  shows "lastIdx h (m[p := v]) = lastIdx h m"
proof (cases "p < length m")
  case True
  have "map sink_OptionsHash (m[p := v]) = (map sink_OptionsHash m)[p := sink_OptionsHash v]"
    by (simp add: map_update)
  also have "\<dots> = map sink_OptionsHash m"
    using True assms by (simp add: list_update_same_conv)
  finally show ?thesis by (rule lastIdx_cong)
next
  case False
  then have "length m \<le> p" by simp
  then show ?thesis by (simp add: list_update_beyond)
qed

lemma uniqOpts_append:
  "(\<lambda>h. lastIdx h m)(sink_OptionsHash s \<mapsto> length m) = (\<lambda>h. lastIdx h (m @ [s]))"
  by (rule ext) (simp add: lastIdx_append)


lemma stable_from_append:
  "stable_from pre (rest @ [s]) \<longleftrightarrow>
     stable_from pre rest \<and>
     (case lastIdx (sink_OptionsHash s) (pre @ rest) of
        Some p \<Rightarrow> sink_Type s \<noteq> sink_Type ((pre @ rest) ! p)
      | None \<Rightarrow> True)"
  by (induction rest arbitrary: pre) (simp_all cong: option.case_cong)

lemma stable_from_cong:
  assumes "map (\<lambda>s. (sink_OptionsHash s, sink_Type s)) pre =
           map (\<lambda>s. (sink_OptionsHash s, sink_Type s)) pre'"
    and "map (\<lambda>s. (sink_OptionsHash s, sink_Type s)) rest =
         map (\<lambda>s. (sink_OptionsHash s, sink_Type s)) rest'"
  shows "stable_from pre rest = stable_from pre' rest'"
  using assms
proof (induction rest arbitrary: pre pre' rest')
  case Nil
  then show ?case by simp
next
  case (Cons s rest)
  then obtain s' rest'' where r': "rest' = s' # rest''" by (cases rest') auto
  with Cons.prems(2) have hd: "sink_OptionsHash s = sink_OptionsHash s'" "sink_Type s = sink_Type s'"
    and tl: "map (\<lambda>s. (sink_OptionsHash s, sink_Type s)) rest =
             map (\<lambda>s. (sink_OptionsHash s, sink_Type s)) rest''"
    by simp_all
  have hs: "map sink_OptionsHash pre = map sink_OptionsHash pre'"
    using arg_cong[OF Cons.prems(1), of "map fst"] by (simp add: comp_def)
  have ts: "map sink_Type pre = map sink_Type pre'"
    using arg_cong[OF Cons.prems(1), of "map snd"] by (simp add: comp_def)
  have li: "lastIdx (sink_OptionsHash s) pre = lastIdx (sink_OptionsHash s') pre'"
    using lastIdx_cong[OF hs] hd(1) by simp
  have ty: "sink_Type (pre ! p) = sink_Type (pre' ! p)" if "p < length pre" for p
  proof -
    have "length pre = length pre'" using arg_cong[OF ts, of length] by simp
    with that have "map sink_Type pre ! p = sink_Type (pre ! p)"
      "map sink_Type pre' ! p = sink_Type (pre' ! p)" by simp_all
    with ts show ?thesis by simp
  qed
  have head: "(case lastIdx (sink_OptionsHash s) pre of
         Some p \<Rightarrow> sink_Type s \<noteq> sink_Type (pre ! p) | None \<Rightarrow> True) =
        (case lastIdx (sink_OptionsHash s') pre' of
         Some p \<Rightarrow> sink_Type s' \<noteq> sink_Type (pre' ! p) | None \<Rightarrow> True)"
  proof (cases "lastIdx (sink_OptionsHash s) pre")
    case None
    with li show ?thesis by simp
  next
    case (Some p)
    from lastIdx_Some[OF Some] have "p < length pre" by simp
    from ty[OF this] Some li hd(2) show ?thesis by simp
  qed
  have "stable_from (pre @ [s]) rest = stable_from (pre' @ [s']) rest''"
    by (rule Cons.IH) (use Cons.prems(1) hd tl in simp_all)
  with head show ?case by (simp add: r')
qed

lemma stable_from_update:
  assumes "sink_OptionsHash v = sink_OptionsHash (m ! p)" "sink_Type v = sink_Type (m ! p)"
  shows "stable_from [] (m[p := v]) = stable_from [] m"
proof (rule stable_from_cong)
  show "map (\<lambda>s. (sink_OptionsHash s, sink_Type s)) [] =
        map (\<lambda>s. (sink_OptionsHash s, sink_Type s)) []" by simp
  show "map (\<lambda>s. (sink_OptionsHash s, sink_Type s)) (m[p := v]) =
        map (\<lambda>s. (sink_OptionsHash s, sink_Type s)) m"
  proof (cases "p < length m")
    case True
    then show ?thesis using assms by (simp add: map_update list_update_same_conv)
  next
    case False
    then have "length m \<le> p" by simp
    then show ?thesis by (simp add: list_update_beyond)
  qed
qed


lemma mergeSyncs_loop_stable_id:
  "stable_from pre rest \<Longrightarrow> mergeSyncs_loop rest (\<lambda>h. lastIdx h pre) pre = pre @ rest"
proof (induction rest arbitrary: pre)
  case Nil
  then show ?case by simp
next
  case (Cons s rest)
  from Cons.prems have st: "stable_from (pre @ [s]) rest"
    and hd: "case lastIdx (sink_OptionsHash s) pre of
               Some p \<Rightarrow> sink_Type s \<noteq> sink_Type (pre ! p) | None \<Rightarrow> True"
    by simp_all
  have "mergeSyncs_loop (s # rest) (\<lambda>h. lastIdx h pre) pre =
        mergeSyncs_loop rest ((\<lambda>h. lastIdx h pre)(sink_OptionsHash s \<mapsto> length pre)) (pre @ [s])"
    using hd by (cases "lastIdx (sink_OptionsHash s) pre") (simp_all add: Let_def)
  also have "\<dots> = mergeSyncs_loop rest (\<lambda>h. lastIdx h (pre @ [s])) (pre @ [s])"
    by (simp only: uniqOpts_append)
  also have "\<dots> = (pre @ [s]) @ rest"
    by (rule Cons.IH[OF st])
  finally show ?case by simp
qed

lemma mergeSyncs_loop_stable:
  "stable_from [] pre \<Longrightarrow> stable_from [] (mergeSyncs_loop sinks (\<lambda>h. lastIdx h pre) pre)"
proof (induction sinks arbitrary: pre)
  case Nil
  then show ?case by simp
next
  case (Cons s rest)
  show ?case
  proof (cases "lastIdx (sink_OptionsHash s) pre")
    case None
    have st: "stable_from [] (pre @ [s])"
      using Cons.prems None by (simp add: stable_from_append)
    have "mergeSyncs_loop (s # rest) (\<lambda>h. lastIdx h pre) pre =
          mergeSyncs_loop rest (\<lambda>h. lastIdx h (pre @ [s])) (pre @ [s])"
      using None by (simp add: uniqOpts_append)
    with Cons.IH[OF st] show ?thesis by simp
  next
    case (Some p)
    from lastIdx_Some[OF Some] have p: "p < length pre" "sink_OptionsHash (pre ! p) = sink_OptionsHash s"
      by simp_all
    show ?thesis
    proof (cases "sink_Type s = sink_Type (pre ! p)")
      case True
      let ?v = "(pre ! p)\<lparr>sink_Name := sink_OptionsHash (pre ! p),
                  sink_Inputs := sort (sink_Inputs (pre ! p) @ sink_Inputs s)\<rparr>"
      have st: "stable_from [] (pre[p := ?v])"
        using Cons.prems by (simp add: stable_from_update)
      have u: "(\<lambda>h. lastIdx h pre) = (\<lambda>h. lastIdx h (pre[p := ?v]))"
        by (rule ext) (simp add: lastIdx_update)
      have "mergeSyncs_loop (s # rest) (\<lambda>h. lastIdx h pre) pre =
            mergeSyncs_loop rest (\<lambda>h. lastIdx h pre) (pre[p := ?v])"
        using Some True by (simp add: Let_def)
      also have "\<dots> = mergeSyncs_loop rest (\<lambda>h. lastIdx h (pre[p := ?v])) (pre[p := ?v])"
        using u by simp
      finally show ?thesis using Cons.IH[OF st] by simp
    next
      case False
      have st: "stable_from [] (pre @ [s])"
        using Cons.prems Some False by (simp add: stable_from_append)
      have "mergeSyncs_loop (s # rest) (\<lambda>h. lastIdx h pre) pre =
            mergeSyncs_loop rest (\<lambda>h. lastIdx h (pre @ [s])) (pre @ [s])"
        using Some False by (simp add: uniqOpts_append Let_def)
      with Cons.IH[OF st] show ?thesis by simp
    qed
  qed
qed

lemma mergeSinkList_stable: "stable_from [] (mergeSinkList sinks)"
  using mergeSyncs_loop_stable[of "[]" sinks] by (simp add: mergeSinkList_def)

lemma mergeSinkList_idem: "mergeSinkList (mergeSinkList sinks) = mergeSinkList sinks"
  using mergeSyncs_loop_stable_id[OF mergeSinkList_stable[of sinks]]
  by (simp add: mergeSinkList_def)

lemma mergeSyncs_idem: "mergeSyncs (mergeSyncs config) = mergeSyncs config"
  by (simp add: mergeSyncs_def Let_def mergeSinkList_idem)


lemma mergeSyncs_loop_origin:
  assumes "\<forall>k\<in>set m. \<forall>x\<in>set (sink_Inputs k). \<exists>s\<in>S.
             sink_OptionsHash s = sink_OptionsHash k \<and> sink_Type s = sink_Type k \<and>
             x \<in> set (sink_Inputs s)"
    and "set sinks \<subseteq> S"
  shows "\<forall>k\<in>set (mergeSyncs_loop sinks (\<lambda>h. lastIdx h m) m). \<forall>x\<in>set (sink_Inputs k). \<exists>s\<in>S.
             sink_OptionsHash s = sink_OptionsHash k \<and> sink_Type s = sink_Type k \<and>
             x \<in> set (sink_Inputs s)"
  using assms
proof (induction sinks arbitrary: m)
  case Nil
  then show ?case by simp
next
  case (Cons s rest)
  from Cons.prems(2) have sS: "s \<in> S" and rS: "set rest \<subseteq> S" by simp_all
  have app: "\<forall>k\<in>set (m @ [s]). \<forall>x\<in>set (sink_Inputs k). \<exists>s\<in>S.
             sink_OptionsHash s = sink_OptionsHash k \<and> sink_Type s = sink_Type k \<and>
             x \<in> set (sink_Inputs s)"
    using Cons.prems(1) sS by auto
  show ?case
  proof (cases "lastIdx (sink_OptionsHash s) m")
    case None
    have "mergeSyncs_loop (s # rest) (\<lambda>h. lastIdx h m) m =
          mergeSyncs_loop rest (\<lambda>h. lastIdx h (m @ [s])) (m @ [s])"
      using None by (simp add: uniqOpts_append)
    with Cons.IH[OF app rS] show ?thesis by simp
  next
    case (Some p)
    from lastIdx_Some[OF Some] have p: "p < length m" "sink_OptionsHash (m ! p) = sink_OptionsHash s"
      by simp_all
    show ?thesis
    proof (cases "sink_Type s = sink_Type (m ! p)")
      case True
      let ?v = "(m ! p)\<lparr>sink_Name := sink_OptionsHash (m ! p),
                  sink_Inputs := sort (sink_Inputs (m ! p) @ sink_Inputs s)\<rparr>"
      have mp: "m ! p \<in> set m" using p(1) by simp
      have v: "\<forall>x\<in>set (sink_Inputs ?v). \<exists>s\<in>S.
             sink_OptionsHash s = sink_OptionsHash ?v \<and> sink_Type s = sink_Type ?v \<and>
             x \<in> set (sink_Inputs s)"
      proof
        fix x assume "x \<in> set (sink_Inputs ?v)"
        then consider "x \<in> set (sink_Inputs (m ! p))" | "x \<in> set (sink_Inputs s)" by auto
        then show "\<exists>s\<in>S. sink_OptionsHash s = sink_OptionsHash ?v \<and> sink_Type s = sink_Type ?v \<and>
             x \<in> set (sink_Inputs s)"
        proof cases
          case 1
          with Cons.prems(1) mp show ?thesis by simp
        next
          case 2
          with sS p(2) True show ?thesis by auto
        qed
      qed
      have upd: "\<forall>k\<in>set (m[p := ?v]). \<forall>x\<in>set (sink_Inputs k). \<exists>s\<in>S.
             sink_OptionsHash s = sink_OptionsHash k \<and> sink_Type s = sink_Type k \<and>
             x \<in> set (sink_Inputs s)"
      proof
        fix k assume "k \<in> set (m[p := ?v])"
        then have "k = ?v \<or> k \<in> set m"
          using set_update_subset_insert[of m p ?v] by auto
        then show "\<forall>x\<in>set (sink_Inputs k). \<exists>s\<in>S.
             sink_OptionsHash s = sink_OptionsHash k \<and> sink_Type s = sink_Type k \<and>
             x \<in> set (sink_Inputs s)"
          using v Cons.prems(1) by blast
      qed
      have u: "(\<lambda>h. lastIdx h m) = (\<lambda>h. lastIdx h (m[p := ?v]))"
        by (rule ext) (simp add: lastIdx_update)
      have "mergeSyncs_loop (s # rest) (\<lambda>h. lastIdx h m) m =
            mergeSyncs_loop rest (\<lambda>h. lastIdx h m) (m[p := ?v])"
        using Some True by (simp add: Let_def)
      also have "\<dots> = mergeSyncs_loop rest (\<lambda>h. lastIdx h (m[p := ?v])) (m[p := ?v])"
        using u by simp
      finally show ?thesis using Cons.IH[OF upd rS] by simp
    next
      case False
      have "mergeSyncs_loop (s # rest) (\<lambda>h. lastIdx h m) m =
            mergeSyncs_loop rest (\<lambda>h. lastIdx h (m @ [s])) (m @ [s])"
        using Some False by (simp add: uniqOpts_append Let_def)
      with Cons.IH[OF app rS] show ?thesis by simp
    qed
  qed
qed

lemma mergeSinkList_origin:
  "\<forall>k\<in>set (mergeSinkList sinks). \<forall>x\<in>set (sink_Inputs k). \<exists>s\<in>set sinks.
      sink_OptionsHash s = sink_OptionsHash k \<and> sink_Type s = sink_Type k \<and>
      x \<in> set (sink_Inputs s)"
  using mergeSyncs_loop_origin[of "[]" "set sinks" sinks] by (simp add: mergeSinkList_def)

lemma mergeSinkList_two_types:
  "sink_Type a \<noteq> sink_Type b \<Longrightarrow> mergeSinkList [a, b] = [a, b]"
  by (simp add: mergeSinkList_def Let_def)


text \<open>
  Claim C8. The sink merge pass is idempotent, on the sink list and on the whole
  configuration: merging the merged sinks again changes nothing. Sinks of different
  types are never merged, whatever their options hashes: two sinks with one hash and
  two types both survive, and in general every input of a merged sink comes from a
  sink of the input list that has the merged sink's hash and its type.
\<close>

theorem sink_merge_idempotent:
  fixes config :: "'a VectorConfig"
  shows "mergeSyncs (mergeSyncs config) = mergeSyncs config \<and>
    mergeSinkList (mergeSinkList sinks) = mergeSinkList sinks \<and>
    (\<forall>k\<in>set (mergeSinkList sinks). \<forall>x\<in>set (sink_Inputs k). \<exists>s\<in>set sinks.
       sink_OptionsHash s = sink_OptionsHash k \<and> sink_Type s = sink_Type k \<and>
       x \<in> set (sink_Inputs s)) \<and>
    (\<forall>a b. sink_OptionsHash a = sink_OptionsHash b \<and> sink_Type a \<noteq> sink_Type b \<longrightarrow>
       mergeSinkList [a, b] = [a, b])"
proof (intro conjI allI impI)
  show "mergeSyncs (mergeSyncs config) = mergeSyncs config"
    by (rule mergeSyncs_idem)
  show "mergeSinkList (mergeSinkList sinks) = mergeSinkList sinks"
    by (rule mergeSinkList_idem)
  show "\<forall>k\<in>set (mergeSinkList sinks). \<forall>x\<in>set (sink_Inputs k). \<exists>s\<in>set sinks.
       sink_OptionsHash s = sink_OptionsHash k \<and> sink_Type s = sink_Type k \<and>
       x \<in> set (sink_Inputs s)"
    by (rule mergeSinkList_origin)
next
  fix a b :: Sink
  assume "sink_OptionsHash a = sink_OptionsHash b \<and> sink_Type a \<noteq> sink_Type b"
  then show "mergeSinkList [a, b] = [a, b]"
    by (simp add: mergeSinkList_two_types)
qed

lemma mergeSinkList_exampleSinks: "mergeSinkList exampleSinks = exampleMergedSinks"
  by (simp add: mergeSinkList_def exampleSinks_def exampleMergedSinks_def)

theorem sink_merge_idempotent_witness:
  "mergeSinkList exampleSinks = exampleMergedSinks \<and>
   mergeSinkList exampleMergedSinks = exampleMergedSinks \<and>
   mergeSyncs (mergeSyncs \<lparr>Sources = [], Transforms = [], Sinks = exampleSinks, AgentSettings = ()\<rparr>) =
     \<lparr>Sources = [], Transforms = [], Sinks = exampleMergedSinks, AgentSettings = ()\<rparr> \<and>
   (\<exists>s\<in>set exampleSinks. sink_OptionsHash s = sink_OptionsHash (exampleMergedSinks ! 0) \<and>
      sink_Type s = sink_Type (exampleMergedSinks ! 0) \<and> ''ns.q.src1'' \<in> set (sink_Inputs s)) \<and>
   sink_OptionsHash (exampleSinks ! 1) = sink_OptionsHash (exampleSinks ! 2) \<and>
   sink_Type (exampleSinks ! 1) \<noteq> sink_Type (exampleSinks ! 2) \<and>
   mergeSinkList [exampleSinks ! 1, exampleSinks ! 2] = [exampleSinks ! 1, exampleSinks ! 2]"
proof -
  let ?c = "\<lparr>Sources = [], Transforms = [], Sinks = exampleSinks, AgentSettings = ()\<rparr>"
  note t = sink_merge_idempotent[of ?c exampleSinks]
  note t1 = t[THEN conjunct1]
  note t2 = t[THEN conjunct2, THEN conjunct1]
  note t3 = t[THEN conjunct2, THEN conjunct2, THEN conjunct1]
  note t4 = t[THEN conjunct2, THEN conjunct2, THEN conjunct2, THEN spec, THEN spec, THEN mp]
  have idem: "mergeSinkList exampleMergedSinks = exampleMergedSinks"
    using t2 unfolding mergeSinkList_exampleSinks .
  have m1: "mergeSyncs ?c = \<lparr>Sources = [], Transforms = [], Sinks = exampleMergedSinks,
      AgentSettings = ()\<rparr>"
    by (simp add: mergeSyncs_def Let_def mergeSinkList_exampleSinks) (simp add: exampleMergedSinks_def)
  have cfg: "mergeSyncs (mergeSyncs ?c) = \<lparr>Sources = [], Transforms = [],
      Sinks = exampleMergedSinks, AgentSettings = ()\<rparr>"
    using t1 m1 by (rule trans)
  have k: "exampleMergedSinks ! 0 \<in> set (mergeSinkList exampleSinks)"
    unfolding mergeSinkList_exampleSinks by (simp add: exampleMergedSinks_def)
  have x: "''ns.q.src1'' \<in> set (sink_Inputs (exampleMergedSinks ! 0))"
    by (simp add: exampleMergedSinks_def)
  note org = t3[THEN bspec, OF k, THEN bspec, OF x]
  have h: "sink_OptionsHash (exampleSinks ! 1) = sink_OptionsHash (exampleSinks ! 2)"
    by (simp add: exampleSinks_def)
  have ty: "sink_Type (exampleSinks ! 1) \<noteq> sink_Type (exampleSinks ! 2)"
    by (simp add: exampleSinks_def)
  note two = t4[OF conjI, OF h ty]
  show ?thesis
    using mergeSinkList_exampleSinks idem cfg org h ty two by (intro conjI)
qed

section \<open>Extraction and the scope rules\<close>


subsection \<open>Decoding and checking the sources of one pipeline\<close>

lemma decodeSources_acc:
  "decodeSources d p [] entries acc =
     (case decodeSources d p [] entries [] of Inl e \<Rightarrow> Inl e | Inr ss \<Rightarrow> Inr (acc @ ss))"
proof (induction entries arbitrary: acc)
  case Nil
  then show ?case by simp
next
  case (Cons entry entries)
  obtain k v where entry: "entry = (k, v)" by (cases entry)
  show ?case
  proof (cases v)
    case DecodeFailed
    then show ?thesis by (simp add: entry)
  next
    case DecodedNil
    then show ?thesis by (simp add: entry)
  next
    case (Decoded s)
    let ?s = "s\<lparr>src_Name := addPrefix d (p_Namespace p) (p_Name p) k\<rparr>"
    have "decodeSources d p [] (entry # entries) acc = decodeSources d p [] entries (acc @ [?s])"
      by (simp add: entry Decoded)
    also have "\<dots> = (case decodeSources d p [] entries [] of
                         Inl e \<Rightarrow> Inl e | Inr ss \<Rightarrow> Inr ((acc @ [?s]) @ ss))"
      by (rule Cons.IH)
    finally have l: "decodeSources d p [] (entry # entries) acc =
        (case decodeSources d p [] entries [] of Inl e \<Rightarrow> Inl e | Inr ss \<Rightarrow> Inr (acc @ ?s # ss))"
      by (simp cong: sum.case_cong)
    have "decodeSources d p [] (entry # entries) [] = decodeSources d p [] entries ([] @ [?s])"
      by (simp add: entry Decoded)
    also have "\<dots> = (case decodeSources d p [] entries [] of
                         Inl e \<Rightarrow> Inl e | Inr ss \<Rightarrow> Inr (([] @ [?s]) @ ss))"
      by (rule Cons.IH)
    finally have r: "decodeSources d p [] (entry # entries) [] =
        (case decodeSources d p [] entries [] of Inl e \<Rightarrow> Inl e | Inr ss \<Rightarrow> Inr (?s # ss))"
      by (simp cong: sum.case_cong)
    show ?thesis unfolding l r by (simp split: sum.splits)
  qed
qed

lemma decodeSources_failed:
  "\<not> allDecode entries \<Longrightarrow>
     decodeSources d p [] entries acc = Inl DecodeError \<or>
     decodeSources d p [] entries acc = Inl NilPointerPanic"
proof (induction entries arbitrary: acc)
  case Nil
  then show ?case by (simp add: allDecode_def)
next
  case (Cons entry entries)
  obtain k v where entry: "entry = (k, v)" by (cases entry)
  show ?case
  proof (cases v)
    case DecodeFailed
    then show ?thesis by (simp add: entry)
  next
    case DecodedNil
    then show ?thesis by (simp add: entry)
  next
    case (Decoded s)
    with Cons.prems have "\<not> allDecode entries" by (simp add: allDecode_def entry)
    from Cons.IH[OF this] show ?thesis by (simp add: entry Decoded)
  qed
qed

lemma decodeSources_member:
  "decodeSources d p [] entries acc = Inr out \<Longrightarrow> (k, Decoded s) \<in> set entries \<Longrightarrow>
     s\<lparr>src_Name := addPrefix d (p_Namespace p) (p_Name p) k\<rparr> \<in> set out"
proof (induction entries arbitrary: acc)
  case Nil
  then show ?case by simp
next
  case (Cons entry entries)
  obtain k' v' where entry: "entry = (k', v')" by (cases entry)
  show ?case
  proof (cases v')
    case DecodeFailed
    with Cons.prems show ?thesis by (simp add: entry)
  next
    case DecodedNil
    with Cons.prems show ?thesis by (simp add: entry)
  next
    case (Decoded s')
    let ?s = "s'\<lparr>src_Name := addPrefix d (p_Namespace p) (p_Name p) k'\<rparr>"
    from Cons.prems(1) have rest: "decodeSources d p [] entries (acc @ [?s]) = Inr out"
      by (simp add: entry Decoded)
    show ?thesis
    proof (cases "(k, Decoded s) = entry")
      case True
      then have eq: "k' = k" "s' = s" by (simp_all add: entry Decoded)
      from rest have "out = (acc @ [?s]) @ projr (decodeSources d p [] entries [])"
        by (subst (asm) decodeSources_acc) (simp split: sum.splits)
      then show ?thesis by (simp add: eq)
    next
      case False
      with Cons.prems(2) have "(k, Decoded s) \<in> set entries" by simp
      from Cons.IH[OF rest this] show ?thesis .
    qed
  qed
qed


lemma decodeSources_append:
  "decodeSources d p [] (es @ fs) acc =
     (case decodeSources d p [] es acc of Inl e \<Rightarrow> Inl e | Inr a \<Rightarrow> decodeSources d p [] fs a)"
proof (induction es arbitrary: acc)
  case Nil
  then show ?case by simp
next
  case (Cons entry es)
  obtain k v where entry: "entry = (k, v)" by (cases entry)
  show ?case by (cases v) (simp_all add: entry Cons.IH)
qed

lemma decodeSources_allDecode:
  "allDecode entries \<Longrightarrow> \<exists>B. decodeSources d p [] entries acc = Inr (acc @ B)"
proof (induction entries arbitrary: acc)
  case Nil
  then show ?case by simp
next
  case (Cons entry entries)
  obtain k v where entry: "entry = (k, v)" by (cases entry)
  from Cons.prems obtain s where v: "v = Decoded s" and rest: "allDecode entries"
    by (cases v) (simp_all add: allDecode_def entry)
  let ?s = "s\<lparr>src_Name := addPrefix d (p_Namespace p) (p_Name p) k\<rparr>"
  from Cons.IH[OF rest, of "acc @ [?s]"] obtain B where
    "decodeSources d p [] entries (acc @ [?s]) = Inr ((acc @ [?s]) @ B)" ..
  then have "decodeSources d p [] (entry # entries) acc = Inr (acc @ (?s # B))"
    by (simp add: entry v)
  then show ?case ..
qed

lemma decodeSources_obey:
  "\<forall>entry\<in>set entries. obeysRules d p entry \<Longrightarrow>
     \<exists>A. decodeSources d p [] entries acc = Inr (acc @ A) \<and>
         (\<forall>a\<in>set A. \<not> breaksTypeRule a \<and> \<not> breaksScopeRule d p a)"
proof (induction entries arbitrary: acc)
  case Nil
  then show ?case by simp
next
  case (Cons entry entries)
  obtain k v where entry: "entry = (k, v)" by (cases entry)
  from Cons.prems have "obeysRules d p (k, v)" by (simp add: entry)
  then obtain s where v: "v = Decoded s" and ok: "\<not> breaksTypeRule s" "\<not> breaksScopeRule d p s"
    by (cases v) (simp_all add: obeysRules_def)
  let ?s = "s\<lparr>src_Name := addPrefix d (p_Namespace p) (p_Name p) k\<rparr>"
  have ok': "\<not> breaksTypeRule ?s \<and> \<not> breaksScopeRule d p ?s"
    using ok by (simp add: breaksTypeRule_def breaksScopeRule_def)
  from Cons.prems have "\<forall>entry\<in>set entries. obeysRules d p entry" by simp
  from Cons.IH[OF this, of "acc @ [?s]"] obtain A where
    A: "decodeSources d p [] entries (acc @ [?s]) = Inr ((acc @ [?s]) @ A)"
       "\<forall>a\<in>set A. \<not> breaksTypeRule a \<and> \<not> breaksScopeRule d p a"
    by blast
  have "decodeSources d p [] (entry # entries) acc = Inr (acc @ (?s # A))"
    using A(1) by (simp add: entry v)
  moreover have "\<forall>a\<in>set (?s # A). \<not> breaksTypeRule a \<and> \<not> breaksScopeRule d p a"
    using ok' A(2) by simp
  ultimately show ?case by blast
qed

lemma kubernetes_not_internal_metrics: "KubernetesSourceType \<noteq> InternalMetricsSourceType"
  by (simp add: KubernetesSourceType_def InternalMetricsSourceType_def)

lemma scopeCheck_obey:
  assumes "p_Type p \<noteq> ClusterPipelineKind" "\<not> breaksTypeRule s" "\<not> breaksScopeRule d p s"
  shows "scopeCheck d p (defaultNamespaceSelector d p s) = None"
  using assms
  by (auto simp: scopeCheck_def defaultNamespaceSelector_def breaksTypeRule_def
      breaksScopeRule_def kubernetes_not_internal_metrics)

lemma scopeCheck_type:
  assumes "p_Type p \<noteq> ClusterPipelineKind" "breaksTypeRule s"
  shows "scopeCheck d p (defaultNamespaceSelector d p s) = Some PipelineTypeError"
  using assms
  by (simp add: scopeCheck_def defaultNamespaceSelector_def breaksTypeRule_def)

lemma scopeCheck_scope:
  assumes "p_Type p \<noteq> ClusterPipelineKind" "breaksScopeRule d p s"
  shows "scopeCheck d p (defaultNamespaceSelector d p s) = Some PipelineScopeError"
  using assms
  by (auto simp: scopeCheck_def defaultNamespaceSelector_def breaksScopeRule_def
      kubernetes_not_internal_metrics)

lemma scopeCheck_None:
  assumes "p_Type p \<noteq> ClusterPipelineKind" "scopeCheck d p (defaultNamespaceSelector d p s) = None"
  shows "src_Type (defaultNamespaceSelector d p s) = KubernetesSourceType \<and>
         src_ExtraNamespaceLabelSelector (defaultNamespaceSelector d p s) =
           NamespaceNameToLabel d (p_Namespace p) \<and>
         \<not> breaksTypeRule s \<and> \<not> breaksScopeRule d p s"
  using assms
  by (auto simp: scopeCheck_def defaultNamespaceSelector_def breaksTypeRule_def
      breaksScopeRule_def split: if_splits)

lemma checkSources_first_failure:
  assumes "\<forall>a\<in>set A. scopeCheck d p (defaultNamespaceSelector d p a) = None"
    and "scopeCheck d p (defaultNamespaceSelector d p s) = Some e"
  shows "checkSources d p (A @ s # B) acc = Inl e"
  using assms by (induction A arbitrary: acc) simp_all

lemma checkSources_acc:
  "checkSources d p ss acc =
     (case checkSources d p ss [] of Inl e \<Rightarrow> Inl e | Inr out \<Rightarrow> Inr (acc @ out))"
proof (induction ss arbitrary: acc)
  case Nil
  then show ?case by simp
next
  case (Cons s ss)
  show ?case
  proof (cases "scopeCheck d p (defaultNamespaceSelector d p s)")
    case (Some e)
    then show ?thesis by simp
  next
    case None
    let ?s = "defaultNamespaceSelector d p s"
    have l: "checkSources d p (s # ss) acc =
        (case checkSources d p ss [] of Inl e \<Rightarrow> Inl e | Inr out \<Rightarrow> Inr (acc @ ?s # out))"
      using None Cons.IH[of "acc @ [?s]"] by (simp cong: sum.case_cong)
    have r: "checkSources d p (s # ss) [] =
        (case checkSources d p ss [] of Inl e \<Rightarrow> Inl e | Inr out \<Rightarrow> Inr (?s # out))"
      using None Cons.IH[of "[?s]"] by (simp cong: sum.case_cong)
    show ?thesis unfolding l r by (simp split: sum.splits)
  qed
qed

lemma checkSources_Inr:
  "checkSources d p ss acc = Inr out \<Longrightarrow>
     out = acc @ map (defaultNamespaceSelector d p) ss \<and>
     (\<forall>s\<in>set ss. scopeCheck d p (defaultNamespaceSelector d p s) = None)"
proof (induction ss arbitrary: acc)
  case Nil
  then show ?case by simp
next
  case (Cons s ss)
  from Cons.prems have n: "scopeCheck d p (defaultNamespaceSelector d p s) = None"
    by (cases "scopeCheck d p (defaultNamespaceSelector d p s)") simp_all
  with Cons.prems have
    "checkSources d p ss (acc @ [defaultNamespaceSelector d p s]) = Inr out" by simp
  from Cons.IH[OF this] n show ?case by simp
qed


subsection \<open>The loop over the pipelines\<close>

lemma extractPipeline_eq:
  "extractPipeline d p =
     (case getSources d p [] of
        Inl e \<Rightarrow> Inl e
      | Inr declared \<Rightarrow>
     (case checkSources d p declared [] of
        Inl e \<Rightarrow> Inl e
      | Inr sources \<Rightarrow>
     (case getTransforms d p of
        Inl e \<Rightarrow> Inl e
      | Inr ts \<Rightarrow>
     (case getSinks d p of
        Inl e \<Rightarrow> Inl e
      | Inr ks \<Rightarrow> Inr (sources, ts, ks)))))"
  by (simp add: extractPipeline_def split: sum.splits)

lemma getComponents_loop_step:
  "getComponents_loop d (p # rest) (S, T, K) =
     (case extractPipeline d p of
        Inl e \<Rightarrow> Inl e
      | Inr (s, t, k) \<Rightarrow> getComponents_loop d rest (S @ s, T @ t, K @ k))"
proof (cases "getSources d p []")
  case (Inl e)
  then show ?thesis by (simp add: extractPipeline_eq)
next
  case (Inr ss)
  show ?thesis
  proof (cases "checkSources d p ss []")
    case (Inl e)
    then have "checkSources d p ss S = Inl e" by (subst checkSources_acc) simp
    with Inl Inr show ?thesis by (simp add: extractPipeline_eq)
  next
    case chk: (Inr out)
    then have "checkSources d p ss S = Inr (S @ out)" by (subst checkSources_acc) simp
    with chk Inr show ?thesis by (simp add: extractPipeline_eq split: sum.splits)
  qed
qed

lemma getComponents_loop_append:
  "getComponents_loop d (pre @ rest) acc =
     (case getComponents_loop d pre acc of
        Inl e \<Rightarrow> Inl e
      | Inr a \<Rightarrow> getComponents_loop d rest a)"
proof (induction pre arbitrary: acc)
  case Nil
  then show ?case by simp
next
  case (Cons p pre)
  obtain S T K where acc: "acc = (S, T, K)" by (cases acc)
  show ?case
    unfolding acc append_Cons getComponents_loop_step
    by (simp add: Cons.IH split: sum.splits prod.splits)
qed

lemma getComponents_loop_Inr:
  "getComponents_loop d ps (S, T, K) = Inr (S', T', K') \<Longrightarrow>
     (\<forall>p\<in>set ps. \<exists>r. extractPipeline d p = Inr r) \<and>
     S' = S @ concat (map (pipelineSources d) ps) \<and>
     T' = T @ concat (map (pipelineTransforms d) ps) \<and>
     K' = K @ concat (map (pipelineSinks d) ps)"
proof (induction ps arbitrary: S T K)
  case Nil
  then show ?case by simp
next
  case (Cons p ps)
  from Cons.prems obtain s t k where e: "extractPipeline d p = Inr (s, t, k)"
    and rest: "getComponents_loop d ps (S @ s, T @ t, K @ k) = Inr (S', T', K')"
    unfolding getComponents_loop_step by (auto split: sum.splits prod.splits)
  from Cons.IH[OF rest] e show ?case
    by (simp add: pipelineSources_def pipelineTransforms_def pipelineSinks_def)
qed

lemma getComponents_loop_first_failure:
  assumes "getComponents_loop d pre acc = Inr a" "extractPipeline d p = Inl e"
  shows "getComponents_loop d (pre @ p # post) acc = Inl e"
proof -
  obtain S T K where a: "a = (S, T, K)" by (cases a)
  show ?thesis
    unfolding getComponents_loop_append assms(1) a
    by (simp only: sum.case getComponents_loop_step assms(2))
qed


subsection \<open>The build fails exactly when the extraction fails\<close>

lemma generateVectorConfig_Inl:
  "getComponents d (Pipelines b) = Inl e \<Longrightarrow> generateVectorConfig d b = Inl e"
  by (simp add: generateVectorConfig_def assembleConfig_def)

lemma generateVectorConfig_Inr:
  "generateVectorConfig d b = Inr cfg \<Longrightarrow> \<exists>S T K. getComponents d (Pipelines b) = Inr (S, T, K)"
  by (cases "getComponents d (Pipelines b)")
     (auto simp: generateVectorConfig_def assembleConfig_def)

lemma getComponents_Inr:
  assumes "getComponents d ps = Inr (S, T, K)"
  shows "(\<forall>p\<in>set ps. \<exists>r. extractPipeline d p = Inr r) \<and>
     S = concat (map (pipelineSources d) ps) \<and>
     T = concat (map (pipelineTransforms d) ps) \<and>
     K = concat (map (pipelineSinks d) ps)"
  using getComponents_loop_Inr[of d ps "[]" "[]" "[]" S T K] assms
  by (simp add: getComponents_def)

lemma extractPipeline_Inr:
  assumes "extractPipeline d p = Inr (S, T, K)"
  shows "\<exists>ss. getSources d p [] = Inr ss \<and> S = map (defaultNamespaceSelector d p) ss \<and>
           (\<forall>s\<in>set ss. scopeCheck d p (defaultNamespaceSelector d p s) = None)"
proof -
  from assms obtain ss where ss: "getSources d p [] = Inr ss"
    unfolding extractPipeline_eq by (cases "getSources d p []") simp_all
  from assms ss have "checkSources d p ss [] = Inr S"
    unfolding extractPipeline_eq by (auto split: sum.splits)
  from checkSources_Inr[OF this] ss show ?thesis by simp
qed

lemma declares_entry:
  "declares p s \<Longrightarrow> \<exists>m k. spec_Sources p = Some (Decoded m) \<and> (k, Decoded s) \<in> set m"
  by (auto simp: declares_def split: option.splits decoded.splits)

lemma rename_breaks:
  "breaksTypeRule (s\<lparr>src_Name := n\<rparr>) = breaksTypeRule s"
  "breaksScopeRule d p (s\<lparr>src_Name := n\<rparr>) = breaksScopeRule d p s"
  by (simp_all add: breaksTypeRule_def breaksScopeRule_def)

lemma violation_fails_extraction:
  assumes ns: "p_Type p \<noteq> ClusterPipelineKind" and dec: "declares p s"
    and br: "breaksTypeRule s \<or> breaksScopeRule d p s"
  shows "\<exists>e. extractPipeline d p = Inl e"
proof (cases "extractPipeline d p")
  case (Inl e)
  then show ?thesis by blast
next
  case (Inr r)
  obtain S T K where r: "r = (S, T, K)" by (cases r)
  from extractPipeline_Inr[OF Inr[unfolded r]] obtain ss where
    ss: "getSources d p [] = Inr ss"
    and ok: "\<forall>s\<in>set ss. scopeCheck d p (defaultNamespaceSelector d p s) = None"
    by blast
  from declares_entry[OF dec] obtain m k where
    m: "spec_Sources p = Some (Decoded m)" "(k, Decoded s) \<in> set m" by blast
  let ?s = "s\<lparr>src_Name := addPrefix d (p_Namespace p) (p_Name p) k\<rparr>"
  from ss m(1) have "decodeSources d p [] m [] = Inr ss" by (simp add: getSources_def)
  from decodeSources_member[OF this m(2)] have "?s \<in> set ss" .
  with ok have "scopeCheck d p (defaultNamespaceSelector d p ?s) = None" by blast
  from scopeCheck_None[OF ns this] have "\<not> breaksTypeRule ?s \<and> \<not> breaksScopeRule d p ?s"
    by simp
  with br show ?thesis by (simp add: rename_breaks)
qed

lemma first_violation_extraction:
  assumes ns: "p_Type p \<noteq> ClusterPipelineKind"
    and src: "spec_Sources p = Some (Decoded (epre @ (k, Decoded s) # epost))"
    and pre: "\<forall>entry\<in>set epre. obeysRules d p entry"
    and post: "allDecode epost"
  shows "(breaksTypeRule s \<longrightarrow> extractPipeline d p = Inl PipelineTypeError) \<and>
         (breaksScopeRule d p s \<longrightarrow> extractPipeline d p = Inl PipelineScopeError)"
proof -
  let ?s = "s\<lparr>src_Name := addPrefix d (p_Namespace p) (p_Name p) k\<rparr>"
  from decodeSources_obey[OF pre, of "[]"] obtain A where
    A: "decodeSources d p [] epre [] = Inr A"
       "\<forall>a\<in>set A. \<not> breaksTypeRule a \<and> \<not> breaksScopeRule d p a"
    by auto
  from decodeSources_allDecode[OF post, of d p "A @ [?s]"] obtain B where
    B: "decodeSources d p [] epost (A @ [?s]) = Inr ((A @ [?s]) @ B)" ..
  have "decodeSources d p [] (epre @ (k, Decoded s) # epost) [] = Inr (A @ ?s # B)"
    unfolding decodeSources_append A(1) using B by simp
  then have gs: "getSources d p [] = Inr (A @ ?s # B)"
    by (simp add: getSources_def src)
  have okA: "\<forall>a\<in>set A. scopeCheck d p (defaultNamespaceSelector d p a) = None"
    using A(2) scopeCheck_obey[OF ns] by blast
  have fail: "extractPipeline d p = Inl e"
    if "scopeCheck d p (defaultNamespaceSelector d p ?s) = Some e" for e
    unfolding extractPipeline_eq gs
    using checkSources_first_failure[OF okA that, of B "[]"] by simp
  show ?thesis
  proof (intro conjI impI)
    assume "breaksTypeRule s"
    then have "breaksTypeRule ?s" by (simp add: rename_breaks)
    from fail[OF scopeCheck_type[OF ns this]]
    show "extractPipeline d p = Inl PipelineTypeError" .
  next
    assume "breaksScopeRule d p s"
    then have "breaksScopeRule d p ?s" by (simp add: rename_breaks)
    from fail[OF scopeCheck_scope[OF ns this]]
    show "extractPipeline d p = Inl PipelineScopeError" .
  qed
qed


text \<open>
  Claim C3. A namespaced pipeline that declares a source breaking the type rule (a
  type other than kubernetes_logs) or the scope rule (a kubernetes_logs source with a
  namespace filter other than the one of the pipeline's namespace) makes the build
  return no configuration at all. The build fails fast, at the first failure met in
  extraction order: when the pipelines before the offending one extract without error,
  its sources payload decodes, and the sources visited before the offending source obey
  both rules, the build fails with \<open>PipelineTypeError\<close> for a breach of the type
  rule and with \<open>PipelineScopeError\<close> for a breach of the scope rule.
\<close>

theorem scope_violation_fails_build:
  fixes b :: "'a Builder"
  shows "(\<forall>p s. p \<in> set (Pipelines b) \<and> p_Type p \<noteq> ClusterPipelineKind \<and> declares p s \<and>
            (breaksTypeRule s \<or> breaksScopeRule d p s) \<longrightarrow>
            (\<exists>e. generateVectorConfig d b = Inl e)) \<and>
    (\<forall>pre p post epre k s epost.
       Pipelines b = pre @ p # post \<and> (\<exists>a. getComponents d pre = Inr a) \<and>
       p_Type p \<noteq> ClusterPipelineKind \<and>
       spec_Sources p = Some (Decoded (epre @ (k, Decoded s) # epost)) \<and>
       (\<forall>entry\<in>set epre. obeysRules d p entry) \<and> allDecode epost \<longrightarrow>
       (breaksTypeRule s \<longrightarrow> generateVectorConfig d b = Inl PipelineTypeError) \<and>
       (breaksScopeRule d p s \<longrightarrow> generateVectorConfig d b = Inl PipelineScopeError))"
proof (intro conjI allI impI)
  fix p s
  assume h: "p \<in> set (Pipelines b) \<and> p_Type p \<noteq> ClusterPipelineKind \<and> declares p s \<and>
            (breaksTypeRule s \<or> breaksScopeRule d p s)"
  then obtain e where e: "extractPipeline d p = Inl e"
    using violation_fails_extraction[of p s d] by blast
  show "\<exists>e. generateVectorConfig d b = Inl e"
  proof (cases "generateVectorConfig d b")
    case (Inl e')
    then show ?thesis by blast
  next
    case (Inr cfg)
    from generateVectorConfig_Inr[OF this] obtain S T K where
      "getComponents d (Pipelines b) = Inr (S, T, K)" by blast
    from getComponents_Inr[OF this] h obtain r where "extractPipeline d p = Inr r" by blast
    with e show ?thesis by simp
  qed
next
  fix pre p post epre k s epost
  assume h: "Pipelines b = pre @ p # post \<and> (\<exists>a. getComponents d pre = Inr a) \<and>
       p_Type p \<noteq> ClusterPipelineKind \<and>
       spec_Sources p = Some (Decoded (epre @ (k, Decoded s) # epost)) \<and>
       (\<forall>entry\<in>set epre. obeysRules d p entry) \<and> allDecode epost"
  then obtain a where a: "getComponents_loop d pre ([], [], []) = Inr a"
    by (auto simp: getComponents_def)
  from h have v: "(breaksTypeRule s \<longrightarrow> extractPipeline d p = Inl PipelineTypeError) \<and>
         (breaksScopeRule d p s \<longrightarrow> extractPipeline d p = Inl PipelineScopeError)"
    using first_violation_extraction[of p epre k s epost d] by blast
  have fail: "generateVectorConfig d b = Inl e" if "extractPipeline d p = Inl e" for e
  proof -
    from getComponents_loop_first_failure[OF a that, of post]
    have "getComponents d (Pipelines b) = Inl e" using h by (simp add: getComponents_def)
    then show ?thesis by (rule generateVectorConfig_Inl)
  qed
  {
    assume "breaksTypeRule s"
    with v fail show "generateVectorConfig d b = Inl PipelineTypeError" by blast
  }
  {
    assume "breaksScopeRule d p s"
    with v fail show "generateVectorConfig d b = Inl PipelineScopeError" by blast
  }
qed


lemma typePipeline_facts:
  "p_Type typePipeline \<noteq> ClusterPipelineKind"
  "spec_Sources typePipeline = Some (Decoded ([] @ (''files'', Decoded fileSource) # []))"
  "declares typePipeline fileSource"
  "breaksTypeRule fileSource"
  by (simp_all add: typePipeline_def emptyPipeline_def declares_def breaksTypeRule_def
      fileSource_def emptySource_def KubernetesSourceType_def)

lemma scopePipeline_facts:
  "p_Type scopePipeline \<noteq> ClusterPipelineKind"
  "spec_Sources scopePipeline = Some (Decoded ([] @ (''logs'', Decoded foreignLogsSource) # []))"
  "declares scopePipeline foreignLogsSource"
  "breaksScopeRule exampleDeps scopePipeline foreignLogsSource"
  by (simp_all add: scopePipeline_def emptyPipeline_def declares_def breaksScopeRule_def
      foreignLogsSource_def emptySource_def KubernetesSourceType_def exampleDeps_def)

lemma ownPipeline_extracts:
  "\<exists>a. getComponents exampleDeps [ownPipeline] = Inr a"
  by (simp add: getComponents_def getSources_def getTransforms_def getSinks_def ownPipeline_def
      emptyPipeline_def ownLogsSource_def emptySource_def defaultNamespaceSelector_def
      scopeCheck_def KubernetesSourceType_def InternalMetricsSourceType_def exampleDeps_def)

theorem scope_violation_fails_build_witness:
  "typePipeline \<in> set (Pipelines (exampleBuilder [ownPipeline, typePipeline])) \<and>
   p_Type typePipeline \<noteq> ClusterPipelineKind \<and> declares typePipeline fileSource \<and>
   breaksTypeRule fileSource \<and>
   (\<exists>e. generateVectorConfig exampleDeps (exampleBuilder [ownPipeline, typePipeline]) = Inl e) \<and>
   (\<exists>a. getComponents exampleDeps [ownPipeline] = Inr a) \<and>
   generateVectorConfig exampleDeps (exampleBuilder [ownPipeline, typePipeline]) =
     Inl PipelineTypeError \<and>
   p_Type scopePipeline \<noteq> ClusterPipelineKind \<and>
   breaksScopeRule exampleDeps scopePipeline foreignLogsSource \<and>
   generateVectorConfig exampleDeps (exampleBuilder [ownPipeline, scopePipeline]) =
     Inl PipelineScopeError \<and>
   generateVectorConfig exampleDeps (exampleBuilder [scopePipeline, typePipeline]) =
     Inl PipelineScopeError"
proof -
  note w = scope_violation_fails_build[of "exampleBuilder [scopePipeline, typePipeline]" exampleDeps]
  have pw: "Pipelines (exampleBuilder [scopePipeline, typePipeline]) =
      [] @ scopePipeline # [typePipeline]"
    by (simp add: exampleBuilder_def)
  have none: "\<exists>a. getComponents exampleDeps [] = Inr a"
    by (simp add: getComponents_def)
  note t = scope_violation_fails_build[of "exampleBuilder [ownPipeline, typePipeline]" exampleDeps]
  note u = scope_violation_fails_build[of "exampleBuilder [ownPipeline, scopePipeline]" exampleDeps]
  have mem: "typePipeline \<in> set (Pipelines (exampleBuilder [ownPipeline, typePipeline]))"
    by (simp add: exampleBuilder_def)
  have any: "\<exists>e. generateVectorConfig exampleDeps (exampleBuilder [ownPipeline, typePipeline]) = Inl e"
    using t[THEN conjunct1, rule_format, of typePipeline fileSource] mem typePipeline_facts(1,3,4)
    by blast
  have pt: "Pipelines (exampleBuilder [ownPipeline, typePipeline]) = [ownPipeline] @ typePipeline # []"
    by (simp add: exampleBuilder_def)
  have ps: "Pipelines (exampleBuilder [ownPipeline, scopePipeline]) = [ownPipeline] @ scopePipeline # []"
    by (simp add: exampleBuilder_def)
  have e: "\<forall>entry\<in>set []. obeysRules exampleDeps p entry" for p by simp
  have ad: "allDecode ([] :: (string \<times> Source decoded) list)" by (simp add: allDecode_def)
  have ty: "generateVectorConfig exampleDeps (exampleBuilder [ownPipeline, typePipeline]) =
     Inl PipelineTypeError"
    using t[THEN conjunct2, rule_format, of "[ownPipeline]" typePipeline "[]" "[]" "''files''"
        fileSource "[]", THEN conjunct1, rule_format]
      pt ownPipeline_extracts typePipeline_facts(1,2,4) e ad
    by blast
  have sc: "generateVectorConfig exampleDeps (exampleBuilder [ownPipeline, scopePipeline]) =
     Inl PipelineScopeError"
    using u[THEN conjunct2, rule_format, of "[ownPipeline]" scopePipeline "[]" "[]" "''logs''"
        foreignLogsSource "[]", THEN conjunct2, rule_format]
      ps ownPipeline_extracts scopePipeline_facts(1,2,4) e ad
    by blast
  have ff: "generateVectorConfig exampleDeps (exampleBuilder [scopePipeline, typePipeline]) =
     Inl PipelineScopeError"
    using w[THEN conjunct2, rule_format, of "[]" scopePipeline "[typePipeline]" "[]" "''logs''"
        foreignLogsSource "[]", THEN conjunct2, rule_format]
      pw none scopePipeline_facts(1,2,4) e ad
    by blast
  from mem typePipeline_facts(1,3,4) any ownPipeline_extracts ty scopePipeline_facts(1,4) sc ff
  show ?thesis by (intro conjI)
qed



subsection \<open>Where the emitted sources come from\<close>

lemma pipelineSources_eq:
  assumes "extractPipeline d p = Inr r"
  shows "\<exists>ss. getSources d p [] = Inr ss \<and>
           pipelineSources d p = map (defaultNamespaceSelector d p) ss \<and>
           (\<forall>s\<in>set ss. scopeCheck d p (defaultNamespaceSelector d p s) = None)"
proof -
  obtain S T K where r: "r = (S, T, K)" by (cases r)
  from extractPipeline_Inr[OF assms[unfolded r]] assms r show ?thesis
    by (simp add: pipelineSources_def)
qed

lemma pipelineSources_namespaced:
  assumes "extractPipeline d p = Inr r" "p_Type p \<noteq> ClusterPipelineKind"
    and "s \<in> set (pipelineSources d p)"
  shows "src_Type s = KubernetesSourceType \<and>
         src_ExtraNamespaceLabelSelector s = NamespaceNameToLabel d (p_Namespace p)"
proof -
  from pipelineSources_eq[OF assms(1)] obtain ss where
    ss: "pipelineSources d p = map (defaultNamespaceSelector d p) ss"
        "\<forall>s\<in>set ss. scopeCheck d p (defaultNamespaceSelector d p s) = None"
    by blast
  from assms(3) ss(1) obtain s0 where s0: "s0 \<in> set ss" "s = defaultNamespaceSelector d p s0"
    by auto
  from ss(2) s0(1) have "scopeCheck d p (defaultNamespaceSelector d p s0) = None" by blast
  from scopeCheck_None[OF assms(2) this] s0(2) show ?thesis by simp
qed

lemma pipelineSources_declared:
  assumes "extractPipeline d p = Inr r" "declares p s0"
  shows "\<exists>k. defaultNamespaceSelector d p
               (s0\<lparr>src_Name := addPrefix d (p_Namespace p) (p_Name p) k\<rparr>)
             \<in> set (pipelineSources d p)"
proof -
  from pipelineSources_eq[OF assms(1)] obtain ss where
    ss: "getSources d p [] = Inr ss"
        "pipelineSources d p = map (defaultNamespaceSelector d p) ss"
    by blast
  from declares_entry[OF assms(2)] obtain m k where
    m: "spec_Sources p = Some (Decoded m)" "(k, Decoded s0) \<in> set m" by blast
  from ss(1) m(1) have "decodeSources d p [] m [] = Inr ss" by (simp add: getSources_def)
  from decodeSources_member[OF this m(2)]
  have "s0\<lparr>src_Name := addPrefix d (p_Namespace p) (p_Name p) k\<rparr> \<in> set ss" .
  then show ?thesis unfolding ss(2) by auto
qed

lemma assembleConfig_Inr:
  assumes "assembleConfig d b = Inr c"
  shows "\<exists>S T K. getComponents d (Pipelines b) = Inr (S, T, K) \<and>
           set (Sources c) \<subseteq> set S \<union> {sourceDefault, internalMetricSource} \<and>
           Transforms c = T"
proof (cases "getComponents d (Pipelines b)")
  case (Inl e)
  with assms show ?thesis by (simp add: assembleConfig_def)
next
  case (Inr r)
  obtain S T K where r: "r = (S, T, K)" by (cases r) auto
  from assms Inr r have "set (Sources c) \<subseteq> set S \<union> {sourceDefault, internalMetricSource} \<and>
      Transforms c = T"
    by (auto simp: assembleConfig_def Let_def split: if_splits)
  with Inr r show ?thesis by blast
qed

lemma mergeKubernetesSources_Sources:
  "set (Sources (mergeKubernetesSources c)) \<subseteq> set (Sources c) \<union>
     {emptySource\<lparr>src_Name := MergedKubernetesSourceName, src_Type := KubernetesSourceType\<rparr>}"
proof (cases "\<exists>s\<in>set (Sources c). eligible s")
  case True
  show ?thesis unfolding mergeKubernetesSources_eligible[OF True] by auto
next
  case False
  show ?thesis unfolding mergeKubernetesSources_none[OF False] by auto
qed

lemma mergeSyncs_Sources: "Sources (mergeSyncs c) = Sources c"
  by (simp add: mergeSyncs_def Let_def)

lemma mergePasses_Sources:
  "set (Sources (mergePasses b c)) \<subseteq> set (Sources c) \<union>
     {emptySource\<lparr>src_Name := MergedKubernetesSourceName, src_Type := KubernetesSourceType\<rparr>}"
  using mergeKubernetesSources_Sources[of c]
  by (auto simp: mergePasses_def Let_def mergeSyncs_Sources)


text \<open>
  Claim C4. In a namespaced pipeline a kubernetes_logs source declared with an empty
  namespace filter gets exactly the filter of the pipeline's own namespace during
  extraction. In every successful build, every source extracted from a namespaced
  pipeline is of type kubernetes_logs and carries that pipeline's own-namespace filter,
  every declared source is extracted, and every emitted source is one of the extracted
  sources or one of the three fixed sources the builder injects (the default source,
  the internal-metrics source, the shared merged source).
\<close>

theorem namespaced_sources_carry_own_filter:
  fixes b :: "'a Builder"
  shows "(p_Type p \<noteq> ClusterPipelineKind \<and> src_Type s = KubernetesSourceType \<and>
      src_ExtraNamespaceLabelSelector s = [] \<longrightarrow>
      defaultNamespaceSelector d p s =
        s\<lparr>src_ExtraNamespaceLabelSelector := NamespaceNameToLabel d (p_Namespace p)\<rparr>) \<and>
    (\<forall>cfg. generateVectorConfig d b = Inr cfg \<longrightarrow>
      (\<forall>q\<in>set (Pipelines b). p_Type q \<noteq> ClusterPipelineKind \<longrightarrow>
         (\<forall>x\<in>set (pipelineSources d q). src_Type x = KubernetesSourceType \<and>
            src_ExtraNamespaceLabelSelector x = NamespaceNameToLabel d (p_Namespace q))) \<and>
      (\<forall>q\<in>set (Pipelines b). \<forall>s0. declares q s0 \<longrightarrow>
         (\<exists>k. defaultNamespaceSelector d q
                (s0\<lparr>src_Name := addPrefix d (p_Namespace q) (p_Name q) k\<rparr>)
              \<in> set (pipelineSources d q))) \<and>
      set (Sources cfg) \<subseteq> (\<Union>q\<in>set (Pipelines b). set (pipelineSources d q)) \<union>
        {sourceDefault, internalMetricSource,
         emptySource\<lparr>src_Name := MergedKubernetesSourceName, src_Type := KubernetesSourceType\<rparr>})"
proof (intro conjI impI allI)
  assume "p_Type p \<noteq> ClusterPipelineKind \<and> src_Type s = KubernetesSourceType \<and>
      src_ExtraNamespaceLabelSelector s = []"
  then show "defaultNamespaceSelector d p s =
        s\<lparr>src_ExtraNamespaceLabelSelector := NamespaceNameToLabel d (p_Namespace p)\<rparr>"
    by (simp add: defaultNamespaceSelector_def)
next
  fix cfg
  assume ok: "generateVectorConfig d b = Inr cfg"
  then obtain c where c: "assembleConfig d b = Inr c" and cfg: "cfg = mergePasses b c"
    by (cases "assembleConfig d b") (auto simp: generateVectorConfig_def)
  from assembleConfig_Inr[OF c] obtain S T K where
    g: "getComponents d (Pipelines b) = Inr (S, T, K)"
    and sub: "set (Sources c) \<subseteq> set S \<union> {sourceDefault, internalMetricSource}"
    by blast
  from getComponents_Inr[OF g] have
    ex: "\<forall>q\<in>set (Pipelines b). \<exists>r. extractPipeline d q = Inr r"
    and S: "S = concat (map (pipelineSources d) (Pipelines b))"
    by simp_all
  show "\<forall>q\<in>set (Pipelines b). p_Type q \<noteq> ClusterPipelineKind \<longrightarrow>
         (\<forall>x\<in>set (pipelineSources d q). src_Type x = KubernetesSourceType \<and>
            src_ExtraNamespaceLabelSelector x = NamespaceNameToLabel d (p_Namespace q))"
  proof (intro ballI impI)
    fix q x
    assume q: "q \<in> set (Pipelines b)" "p_Type q \<noteq> ClusterPipelineKind"
      and x: "x \<in> set (pipelineSources d q)"
    from ex q(1) obtain r where "extractPipeline d q = Inr r" by blast
    from pipelineSources_namespaced[OF this q(2) x]
    show "src_Type x = KubernetesSourceType \<and>
            src_ExtraNamespaceLabelSelector x = NamespaceNameToLabel d (p_Namespace q)" .
  qed
  show "\<forall>q\<in>set (Pipelines b). \<forall>s0. declares q s0 \<longrightarrow>
         (\<exists>k. defaultNamespaceSelector d q
                (s0\<lparr>src_Name := addPrefix d (p_Namespace q) (p_Name q) k\<rparr>)
              \<in> set (pipelineSources d q))"
  proof (intro ballI allI impI)
    fix q s0
    assume q: "q \<in> set (Pipelines b)" and dec: "declares q s0"
    from ex q obtain r where "extractPipeline d q = Inr r" by blast
    from pipelineSources_declared[OF this dec]
    show "\<exists>k. defaultNamespaceSelector d q
                (s0\<lparr>src_Name := addPrefix d (p_Namespace q) (p_Name q) k\<rparr>)
              \<in> set (pipelineSources d q)" .
  qed
  have "set S = (\<Union>q\<in>set (Pipelines b). set (pipelineSources d q))"
    unfolding S by simp
  with sub mergePasses_Sources[of b c]
  show "set (Sources cfg) \<subseteq> (\<Union>q\<in>set (Pipelines b). set (pipelineSources d q)) \<union>
        {sourceDefault, internalMetricSource,
         emptySource\<lparr>src_Name := MergedKubernetesSourceName, src_Type := KubernetesSourceType\<rparr>}"
    unfolding cfg by blast
qed


lemma ownPipeline_build:
  "generateVectorConfig exampleDeps (exampleBuilder [ownPipeline]) = Inr exampleOwnConfig"
  by code_simp

lemma ownPipeline_sources:
  "pipelineSources exampleDeps ownPipeline = [extractedOwnSource]"
  by code_simp

lemma ownPipeline_facts:
  "p_Type ownPipeline \<noteq> ClusterPipelineKind"
  "src_Type ownLogsSource = KubernetesSourceType"
  "src_ExtraNamespaceLabelSelector ownLogsSource = []"
  "declares ownPipeline ownLogsSource"
  "ownPipeline \<in> set (Pipelines (exampleBuilder [ownPipeline]))"
  "NamespaceNameToLabel exampleDeps (p_Namespace ownPipeline) = ''kubernetes.io/metadata.name=app3''"
  by (simp_all add: ownPipeline_def emptyPipeline_def ownLogsSource_def emptySource_def
      KubernetesSourceType_def declares_def exampleBuilder_def exampleDeps_def)

theorem namespaced_sources_carry_own_filter_witness:
  "p_Type ownPipeline \<noteq> ClusterPipelineKind \<and>
   src_Type ownLogsSource = KubernetesSourceType \<and>
   src_ExtraNamespaceLabelSelector ownLogsSource = [] \<and>
   defaultNamespaceSelector exampleDeps ownPipeline ownLogsSource =
     ownLogsSource\<lparr>src_ExtraNamespaceLabelSelector := ''kubernetes.io/metadata.name=app3''\<rparr> \<and>
   generateVectorConfig exampleDeps (exampleBuilder [ownPipeline]) = Inr exampleOwnConfig \<and>
   ownPipeline \<in> set (Pipelines (exampleBuilder [ownPipeline])) \<and>
   extractedOwnSource \<in> set (pipelineSources exampleDeps ownPipeline) \<and>
   src_Type extractedOwnSource = KubernetesSourceType \<and>
   src_ExtraNamespaceLabelSelector extractedOwnSource = ''kubernetes.io/metadata.name=app3'' \<and>
   declares ownPipeline ownLogsSource \<and>
   Sources exampleOwnConfig = [extractedOwnSource]"
proof -
  note t = namespaced_sources_carry_own_filter[of ownPipeline ownLogsSource exampleDeps
      "exampleBuilder [ownPipeline]"]
  have dflt: "defaultNamespaceSelector exampleDeps ownPipeline ownLogsSource =
     ownLogsSource\<lparr>src_ExtraNamespaceLabelSelector := ''kubernetes.io/metadata.name=app3''\<rparr>"
    using t[THEN conjunct1, THEN mp, OF conjI, OF ownPipeline_facts(1) conjI,
        OF ownPipeline_facts(2,3)]
    unfolding ownPipeline_facts(6) .
  note c = t[THEN conjunct2, THEN spec, THEN mp, OF ownPipeline_build, THEN conjunct1,
      THEN bspec, OF ownPipeline_facts(5), THEN mp, OF ownPipeline_facts(1)]
  have mem: "extractedOwnSource \<in> set (pipelineSources exampleDeps ownPipeline)"
    unfolding ownPipeline_sources by simp
  from c[THEN bspec, OF mem]
  have ty: "src_Type extractedOwnSource = KubernetesSourceType"
    and ns: "src_ExtraNamespaceLabelSelector extractedOwnSource = ''kubernetes.io/metadata.name=app3''"
    unfolding ownPipeline_facts(6) by simp_all
  have srcs: "Sources exampleOwnConfig = [extractedOwnSource]"
    by (simp add: exampleOwnConfig_def)
  from ownPipeline_facts(1,2,3) dflt ownPipeline_build ownPipeline_facts(5) mem ty ns
    ownPipeline_facts(4) srcs
  show ?thesis by (intro conjI)
qed



section \<open>References between components\<close>

lemma routes_keys:
  "fst ` set (snd (collectRoutes ss [] [])) = src_Name ` {s \<in> set ss. eligible s}"
  using routes_dom[of ss] by (simp add: dom_map_of_conv_image_fst)

lemma rewriteInputs_cases:
  assumes "i' \<in> set (rewriteInputs routes inputs)"
  shows "\<exists>i\<in>set inputs. (map_of routes i \<noteq> None \<and> i' = MergedSourceTransformName @ ''.'' @ i) \<or>
                          (map_of routes i = None \<and> i' = i)"
  using assms by (auto simp: rewriteInputs_def)

lemma merged_Transforms:
  assumes "\<exists>s\<in>set (Sources c). eligible s"
  shows "Transforms (mergeKubernetesSources c) =
     map (\<lambda>t. t\<lparr>tr_Inputs := rewriteInputs (snd (collectRoutes (Sources c) [] [])) (tr_Inputs t)\<rparr>)
       (Transforms c) @
     [\<lparr>tr_Name = MergedSourceTransformName, tr_Type = RouteTransformType,
       tr_Inputs = [MergedKubernetesSourceName],
       tr_Route = snd (collectRoutes (Sources c) [] []), tr_Options = None\<rparr>]"
  unfolding mergeKubernetesSources_eligible[OF assms] by simp

lemma merged_Sinks:
  assumes "\<exists>s\<in>set (Sources c). eligible s"
  shows "Sinks (mergeKubernetesSources c) =
     map (\<lambda>t. t\<lparr>sink_Inputs := rewriteInputs (snd (collectRoutes (Sources c) [] [])) (sink_Inputs t)\<rparr>)
       (Sinks c)"
  unfolding mergeKubernetesSources_eligible[OF assms] by simp

lemma merged_Sources:
  assumes "\<exists>s\<in>set (Sources c). eligible s"
  shows "Sources (mergeKubernetesSources c) =
     filter (\<lambda>s. \<not> eligible s) (Sources c) @
     [emptySource\<lparr>src_Name := MergedKubernetesSourceName, src_Type := KubernetesSourceType\<rparr>]"
  unfolding mergeKubernetesSources_eligible[OF assms] by simp

lemma merged_allInputs:
  assumes "\<exists>s\<in>set (Sources c). eligible s"
  shows "allInputs (mergeKubernetesSources c) =
     concat (map (\<lambda>t. rewriteInputs (snd (collectRoutes (Sources c) [] [])) (tr_Inputs t))
       (Transforms c)) @ [MergedKubernetesSourceName] @
     concat (map (\<lambda>t. rewriteInputs (snd (collectRoutes (Sources c) [] [])) (sink_Inputs t))
       (Sinks c))"
  unfolding allInputs_def merged_Transforms[OF assms] merged_Sinks[OF assms]
  by (simp add: comp_def)


lemma merged_componentNames:
  assumes "\<exists>s\<in>set (Sources c). eligible s"
  shows "componentNames (mergeKubernetesSources c) =
     map src_Name (filter (\<lambda>s. \<not> eligible s) (Sources c)) @ [MergedKubernetesSourceName] @
     map tr_Name (Transforms c) @ [MergedSourceTransformName]"
  unfolding componentNames_def merged_Transforms[OF assms] merged_Sources[OF assms]
  by (simp add: comp_def)

lemma merged_routeOutputs:
  assumes "\<exists>s\<in>set (Sources c). eligible s"
  shows "routeOutputs (mergeKubernetesSources c) =
     routeOutputs c @
     map (\<lambda>(k, v). MergedSourceTransformName @ ''.'' @ k) (snd (collectRoutes (Sources c) [] []))"
  unfolding routeOutputs_def merged_Transforms[OF assms]
  by (simp add: comp_def)

lemma resolves_rewritten:
  assumes e: "\<exists>s\<in>set (Sources c). eligible s" and r: "resolves c i"
  shows "resolves (mergeKubernetesSources c)
     (if map_of (snd (collectRoutes (Sources c) [] [])) i \<noteq> None
      then MergedSourceTransformName @ ''.'' @ i else i)"
proof (cases "map_of (snd (collectRoutes (Sources c) [] [])) i")
  case (Some v)
  then have "(i, v) \<in> set (snd (collectRoutes (Sources c) [] []))" by (rule map_of_SomeD)
  then have "(\<lambda>(k, v). MergedSourceTransformName @ ''.'' @ k) (i, v)
      \<in> (\<lambda>(k, v). MergedSourceTransformName @ ''.'' @ k) ` set (snd (collectRoutes (Sources c) [] []))"
    by (rule imageI)
  then have "MergedSourceTransformName @ ''.'' @ i \<in> set (routeOutputs (mergeKubernetesSources c))"
    unfolding merged_routeOutputs[OF e] by simp
  with Some show ?thesis by (simp add: resolves_def)
next
  case None
  from r consider (src) "i \<in> src_Name ` set (Sources c)" | (tr) "i \<in> tr_Name ` set (Transforms c)"
    | (out) "i \<in> set (routeOutputs c)"
    unfolding resolves_def componentNames_def by auto
  then have "resolves (mergeKubernetesSources c) i"
  proof cases
    case src
    then obtain s where s: "s \<in> set (Sources c)" "i = src_Name s" by blast
    have "\<not> eligible s"
    proof
      assume "eligible s"
      with s have "i \<in> dom (map_of (snd (collectRoutes (Sources c) [] [])))"
        unfolding routes_dom by blast
      with None show False by blast
    qed
    with s have "i \<in> src_Name ` set (filter (\<lambda>s. \<not> eligible s) (Sources c))" by simp
    then show ?thesis
      unfolding resolves_def merged_componentNames[OF e] by simp
  next
    case tr
    then show ?thesis
      unfolding resolves_def merged_componentNames[OF e] by simp
  next
    case out
    then show ?thesis
      unfolding resolves_def merged_routeOutputs[OF e] by simp
  qed
  with None show ?thesis by simp
qed

lemma rewriteInputs_mem:
  "i' \<in> set (rewriteInputs routes inputs) \<Longrightarrow>
     \<exists>i\<in>set inputs. i' = (if map_of routes i \<noteq> None then MergedSourceTransformName @ ''.'' @ i else i)"
  unfolding rewriteInputs_def set_map by (erule imageE) blast

lemma mergeKubernetesSources_resolves:
  assumes "\<forall>i\<in>set (allInputs c). resolves c i"
  shows "\<forall>i\<in>set (allInputs (mergeKubernetesSources c)). resolves (mergeKubernetesSources c) i"
proof (cases "\<exists>s\<in>set (Sources c). eligible s")
  case False
  show ?thesis unfolding mergeKubernetesSources_none[OF False] by (rule assms)
next
  case e: True
  let ?r = "snd (collectRoutes (Sources c) [] [])"
  show ?thesis
  proof
    fix i' assume "i' \<in> set (allInputs (mergeKubernetesSources c))"
    then consider
        (m) "i' = MergedKubernetesSourceName"
      | (t) t where "t \<in> set (Transforms c)" "i' \<in> set (rewriteInputs ?r (tr_Inputs t))"
      | (k) k where "k \<in> set (Sinks c)" "i' \<in> set (rewriteInputs ?r (sink_Inputs k))"
      unfolding merged_allInputs[OF e] by auto
    then show "resolves (mergeKubernetesSources c) i'"
    proof cases
      case m
      then show ?thesis unfolding resolves_def merged_componentNames[OF e] by simp
    next
      case t
      from rewriteInputs_mem[OF t(2)] obtain i where i: "i \<in> set (tr_Inputs t)"
        "i' = (if map_of ?r i \<noteq> None then MergedSourceTransformName @ ''.'' @ i else i)"
        by blast
      from i(1) t(1) have "i \<in> set (allInputs c)" unfolding allInputs_def by auto
      with assms have "resolves c i" by blast
      from resolves_rewritten[OF e this] i(2) show ?thesis by simp
    next
      case k
      from rewriteInputs_mem[OF k(2)] obtain i where i: "i \<in> set (sink_Inputs k)"
        "i' = (if map_of ?r i \<noteq> None then MergedSourceTransformName @ ''.'' @ i else i)"
        by blast
      from i(1) k(1) have "i \<in> set (allInputs c)" unfolding allInputs_def by auto
      with assms have "resolves c i" by blast
      from resolves_rewritten[OF e this] i(2) show ?thesis by simp
    qed
  qed
qed


lemma mergeSyncs_inputs:
  "set (allInputs (mergeSyncs c)) \<subseteq> set (allInputs c)"
proof (cases "length (mergeSinkList (Sinks c)) > 0")
  case False
  then show ?thesis by (simp add: mergeSyncs_def Let_def)
next
  case True
  have "set (concat (map sink_Inputs (mergeSinkList (Sinks c)))) \<subseteq>
        set (concat (map sink_Inputs (Sinks c)))"
  proof
    fix x assume "x \<in> set (concat (map sink_Inputs (mergeSinkList (Sinks c))))"
    then obtain k where k: "k \<in> set (mergeSinkList (Sinks c))" "x \<in> set (sink_Inputs k)"
      by auto
    from mergeSinkList_origin[of "Sinks c"] k obtain s where
      "s \<in> set (Sinks c)" "x \<in> set (sink_Inputs s)" by blast
    then show "x \<in> set (concat (map sink_Inputs (Sinks c)))" by auto
  qed
  with True show ?thesis by (auto simp: mergeSyncs_def Let_def allInputs_def)
qed

lemma mergeSyncs_names:
  "componentNames (mergeSyncs c) = componentNames c"
  "routeOutputs (mergeSyncs c) = routeOutputs c"
  by (simp_all add: mergeSyncs_def Let_def componentNames_def routeOutputs_def)

lemma mergeSyncs_resolves:
  assumes "\<forall>i\<in>set (allInputs c). resolves c i"
  shows "\<forall>i\<in>set (allInputs (mergeSyncs c)). resolves (mergeSyncs c) i"
proof
  fix i assume "i \<in> set (allInputs (mergeSyncs c))"
  with mergeSyncs_inputs[of c] have "i \<in> set (allInputs c)" by blast
  with assms have "resolves c i" by blast
  then show "resolves (mergeSyncs c) i" by (simp add: resolves_def mergeSyncs_names)
qed

lemma mergePasses_resolves:
  assumes "\<forall>i\<in>set (allInputs c). resolves c i"
  shows "\<forall>i\<in>set (allInputs (mergePasses b c)). resolves (mergePasses b c) i"
proof -
  let ?c1 = "if Spec_MergeKubernetesSources b then mergeKubernetesSources c else c"
  have 1: "\<forall>i\<in>set (allInputs ?c1). resolves ?c1 i"
    using assms mergeKubernetesSources_resolves[OF assms] by simp
  have "mergePasses b c = (if Spec_MergeSinks b then mergeSyncs ?c1 else ?c1)"
    by (simp add: mergePasses_def Let_def)
  with 1 mergeSyncs_resolves[OF 1] show ?thesis by simp
qed

lemma default_sinks_wired:
  assumes "getComponents d (Pipelines b) = Inr ([], T, [])" "assembleConfig d b = Inr c"
  shows "\<forall>k\<in>set (Sinks c). \<forall>i\<in>set (sink_Inputs k). i \<in> src_Name ` set (Sources c)"
proof (cases "Spec_Agent_InternalMetrics b")
  case True
  with assms have c: "Sources c = [internalMetricSource]" "Sinks c = [internalMetricsExporter]"
    by (auto simp: assembleConfig_def isExporterSinkExists_def)
  show ?thesis unfolding c by (simp add: internalMetricsExporter_def)
next
  case False
  with assms have c: "Sources c = [sourceDefault]" "Sinks c = [sinkDefault]"
    by (auto simp: assembleConfig_def)
  show ?thesis unfolding c by (simp add: sinkDefault_def)
qed


lemma default_config_unmerged:
  assumes "getComponents d (Pipelines b) = Inr ([], T, [])" "assembleConfig d b = Inr c"
  shows "Sources (mergePasses b c) = Sources c \<and> Sinks (mergePasses b c) = Sinks c"
proof -
  from assms have src: "Sources c = [internalMetricSource] \<or> Sources c = [sourceDefault]"
    and snk: "\<exists>k. Sinks c = [k]"
    by (auto simp: assembleConfig_def isExporterSinkExists_def split: if_splits)
  have ne: "\<not> (\<exists>s\<in>set (Sources c). eligible s)"
    using src
    by (auto simp: eligible_def internalMetricSource_def sourceDefault_def emptySource_def)
  from snk obtain k where k: "Sinks c = [k]" ..
  have s1: "mergeSinkList [k] = [k]" by (simp add: mergeSinkList_def)
  have m: "Sinks (mergeSyncs c) = Sinks c"
    unfolding mergeSyncs_def Let_def k s1 by (simp add: k)
  show ?thesis
    unfolding mergePasses_def Let_def mergeKubernetesSources_none[OF ne]
    by (simp add: m mergeSyncs_Sources)
qed

text \<open>
  Claim C5, as amended. The builder does not check the inputs it emits: a declared
  input is prefixed and passed on whether or not it names a component. What holds is
  that the merge passes keep a resolvable configuration resolvable: when every input of
  the configuration assembled before the merge passes names an emitted source or
  transform or a route output, so does every input of the returned configuration, an
  input that named a retired source having become the route output
  \<open>merged.\<close> followed by the retired name. And when the pipelines contribute no
  source and no sink, every input of the injected sink names an emitted source, before
  and after the merge passes.
\<close>

theorem merge_passes_keep_inputs_resolved:
  fixes b :: "'a Builder"
  shows "(\<forall>c. assembleConfig d b = Inr c \<longrightarrow>
       generateVectorConfig d b = Inr (mergePasses b c) \<and>
       ((\<forall>i\<in>set (allInputs c). resolves c i) \<longrightarrow>
        (\<forall>i\<in>set (allInputs (mergePasses b c)). resolves (mergePasses b c) i))) \<and>
    (\<forall>c T. assembleConfig d b = Inr c \<and> getComponents d (Pipelines b) = Inr ([], T, []) \<longrightarrow>
       (\<forall>k\<in>set (Sinks c). \<forall>i\<in>set (sink_Inputs k). i \<in> src_Name ` set (Sources c)) \<and>
       (\<forall>k\<in>set (Sinks (mergePasses b c)). \<forall>i\<in>set (sink_Inputs k).
          i \<in> src_Name ` set (Sources (mergePasses b c))))"
proof (intro conjI allI impI)
  fix c assume "assembleConfig d b = Inr c"
  then show "generateVectorConfig d b = Inr (mergePasses b c)"
    by (simp add: generateVectorConfig_def)
next
  fix c :: "'a VectorConfig"
  assume "\<forall>i\<in>set (allInputs c). resolves c i"
  then show "\<forall>i\<in>set (allInputs (mergePasses b c)). resolves (mergePasses b c) i"
    by (rule mergePasses_resolves)
next
  fix c T
  assume h: "assembleConfig d b = Inr c \<and> getComponents d (Pipelines b) = Inr ([], T, [])"
  then have w: "\<forall>k\<in>set (Sinks c). \<forall>i\<in>set (sink_Inputs k). i \<in> src_Name ` set (Sources c)"
    using default_sinks_wired[of d b T c] by blast
  from h have u: "Sources (mergePasses b c) = Sources c \<and> Sinks (mergePasses b c) = Sinks c"
    using default_config_unmerged[of d b T c] by blast
  show "\<forall>k\<in>set (Sinks c). \<forall>i\<in>set (sink_Inputs k). i \<in> src_Name ` set (Sources c)"
    by (rule w)
  show "\<forall>k\<in>set (Sinks (mergePasses b c)). \<forall>i\<in>set (sink_Inputs k).
          i \<in> src_Name ` set (Sources (mergePasses b c))"
    using w u by simp
qed

lemma resolved_assembled:
  "assembleConfig exampleDeps (exampleBuilder [resolvedPipeline]) = Inr exampleResolvedConfig"
  by code_simp

lemma resolved_inputs:
  "list_all (resolves exampleResolvedConfig) (allInputs exampleResolvedConfig)"
  by code_simp

lemma resolved_merged_inputs:
  "allInputs (mergePasses (exampleBuilder [resolvedPipeline]) exampleResolvedConfig) =
     [''merged..p.logs'', ''mergedKubernetesSource'', ''.p.parse'']"
  by code_simp

lemma default_extracted: "getComponents exampleDeps (Pipelines (exampleBuilder [])) = Inr ([], [], [])"
  by code_simp

lemma default_assembled:
  "assembleConfig exampleDeps (exampleBuilder []) = Inr exampleDefaultConfig"
  by code_simp

theorem merge_passes_keep_inputs_resolved_witness:
  "assembleConfig exampleDeps (exampleBuilder [resolvedPipeline]) = Inr exampleResolvedConfig \<and>
   list_all (resolves exampleResolvedConfig) (allInputs exampleResolvedConfig) \<and>
   generateVectorConfig exampleDeps (exampleBuilder [resolvedPipeline]) =
     Inr (mergePasses (exampleBuilder [resolvedPipeline]) exampleResolvedConfig) \<and>
   allInputs (mergePasses (exampleBuilder [resolvedPipeline]) exampleResolvedConfig) =
     [''merged..p.logs'', ''mergedKubernetesSource'', ''.p.parse''] \<and>
   list_all (resolves (mergePasses (exampleBuilder [resolvedPipeline]) exampleResolvedConfig))
     (allInputs (mergePasses (exampleBuilder [resolvedPipeline]) exampleResolvedConfig)) \<and>
   getComponents exampleDeps (Pipelines (exampleBuilder [])) = Inr ([], [], []) \<and>
   assembleConfig exampleDeps (exampleBuilder []) = Inr exampleDefaultConfig \<and>
   list_all (\<lambda>k. list_all (\<lambda>i. i \<in> src_Name ` set (Sources exampleDefaultConfig)) (sink_Inputs k))
     (Sinks exampleDefaultConfig)"
proof -
  note t = merge_passes_keep_inputs_resolved[of exampleDeps "exampleBuilder [resolvedPipeline]",
      THEN conjunct1, THEN spec, THEN mp, OF resolved_assembled]
  note u = merge_passes_keep_inputs_resolved[of exampleDeps "exampleBuilder []",
      THEN conjunct2, THEN spec, THEN spec, THEN mp, OF conjI,
      OF default_assembled default_extracted, THEN conjunct1]
  have hyp: "\<forall>i\<in>set (allInputs exampleResolvedConfig). resolves exampleResolvedConfig i"
    using resolved_inputs unfolding list_all_iff .
  have res: "list_all (resolves (mergePasses (exampleBuilder [resolvedPipeline]) exampleResolvedConfig))
     (allInputs (mergePasses (exampleBuilder [resolvedPipeline]) exampleResolvedConfig))"
    unfolding list_all_iff using t[THEN conjunct2, THEN mp, OF hyp] .
  have dflt: "list_all (\<lambda>k. list_all (\<lambda>i. i \<in> src_Name ` set (Sources exampleDefaultConfig))
      (sink_Inputs k)) (Sinks exampleDefaultConfig)"
    unfolding list_all_iff using u .
  from resolved_assembled resolved_inputs t[THEN conjunct1] resolved_merged_inputs res
    default_extracted default_assembled dflt
  show ?thesis by (intro conjI)
qed

lemma dangling_build:
  "generateVectorConfig exampleDeps (exampleBuilder [danglingPipeline]) = Inr exampleDanglingConfig"
  by code_simp

theorem dangling_input_is_emitted:
  "generateVectorConfig exampleDeps (exampleBuilder [danglingPipeline]) = Inr exampleDanglingConfig \<and>
   ''app3.r.nope'' \<in> set (sink_Inputs (hd (Sinks exampleDanglingConfig))) \<and>
   ''app3.r.nope'' \<in> set (allInputs exampleDanglingConfig) \<and>
   \<not> namesComponent exampleDanglingConfig ''app3.r.nope'' \<and>
   \<not> resolves exampleDanglingConfig ''app3.r.nope''"
proof -
  have 1: "''app3.r.nope'' \<in> set (sink_Inputs (hd (Sinks exampleDanglingConfig)))"
    by (simp add: exampleDanglingConfig_def)
  have 2: "''app3.r.nope'' \<in> set (allInputs exampleDanglingConfig)"
    by (simp add: exampleDanglingConfig_def allInputs_def)
  have 3: "\<not> namesComponent exampleDanglingConfig ''app3.r.nope''"
    by code_simp
  have 4: "\<not> resolves exampleDanglingConfig ''app3.r.nope''"
    by code_simp
  from dangling_build 1 2 3 4 show ?thesis by (intro conjI)
qed

text \<open>
  The amended claim leaves one case open: sources are declared and no sink is. The
  injected default sink is then wired to \<open>defaultSource\<close>, which is injected only
  when no source is declared.
\<close>

lemma default_sink_without_default_source:
  "generateVectorConfig exampleDeps (exampleBuilder [ownPipeline]) = Inr exampleOwnConfig \<and>
   Sinks exampleOwnConfig = [sinkDefault] \<and> sink_Inputs sinkDefault = [''defaultSource''] \<and>
   \<not> resolves exampleOwnConfig ''defaultSource''"
proof -
  have 1: "Sinks exampleOwnConfig = [sinkDefault]" by (simp add: exampleOwnConfig_def)
  have 2: "sink_Inputs sinkDefault = [''defaultSource'']"
    by (simp add: sinkDefault_def sourceDefault_def)
  have 3: "\<not> resolves exampleOwnConfig ''defaultSource''" by code_simp
  from ownPipeline_build 1 2 3 show ?thesis by (intro conjI)
qed

section \<open>Names of the components\<close>

lemma decodeSources_names:
  "decodeSources d p [] m acc = Inr out \<Longrightarrow>
     map src_Name out =
       map src_Name acc @ map (addPrefix d (p_Namespace p) (p_Name p)) (map fst m)"
proof (induction m arbitrary: acc)
  case Nil
  then show ?case by simp
next
  case (Cons entry m)
  obtain k v where entry: "entry = (k, v)" by (cases entry)
  show ?case
  proof (cases v)
    case DecodeFailed
    with Cons.prems show ?thesis by (simp add: entry)
  next
    case DecodedNil
    with Cons.prems show ?thesis by (simp add: entry)
  next
    case (Decoded s)
    with Cons.prems have "decodeSources d p [] m
        (acc @ [s\<lparr>src_Name := addPrefix d (p_Namespace p) (p_Name p) k\<rparr>]) = Inr out"
      by (simp add: entry)
    from Cons.IH[OF this] show ?thesis by (simp add: entry)
  qed
qed

lemma decodeTransforms_names:
  "decodeTransforms d p m acc = Inr out \<Longrightarrow>
     map tr_Name out =
       map tr_Name acc @ map (addPrefix d (p_Namespace p) (p_Name p)) (map fst m)"
proof (induction m arbitrary: acc)
  case Nil
  then show ?case by simp
next
  case (Cons entry m)
  obtain k v where entry: "entry = (k, v)" by (cases entry)
  show ?case
  proof (cases v)
    case DecodeFailed
    with Cons.prems show ?thesis by (simp add: entry)
  next
    case DecodedNil
    with Cons.prems show ?thesis by (simp add: entry)
  next
    case (Decoded t)
    with Cons.prems have "decodeTransforms d p m
        (acc @ [t\<lparr>tr_Name := addPrefix d (p_Namespace p) (p_Name p) k,
                   tr_Inputs := map (addPrefix d (p_Namespace p) (p_Name p)) (tr_Inputs t)\<rparr>]) =
        Inr out"
      by (simp add: entry)
    from Cons.IH[OF this] show ?thesis by (simp add: entry)
  qed
qed

lemma decodeSinks_names:
  "decodeSinks d p m acc = Inr out \<Longrightarrow>
     map sink_Name out =
       map sink_Name acc @ map (addPrefix d (p_Namespace p) (p_Name p)) (map fst m)"
proof (induction m arbitrary: acc)
  case Nil
  then show ?case by simp
next
  case (Cons entry m)
  obtain k v where entry: "entry = (k, v)" by (cases entry)
  show ?case
  proof (cases v)
    case DecodeFailed
    with Cons.prems show ?thesis by (simp add: entry)
  next
    case DecodedNil
    with Cons.prems show ?thesis by (simp add: entry)
  next
    case (Decoded s)
    show ?thesis
    proof (cases "jsonMarshal d (sink_Options s)")
      case None
      with Cons.prems Decoded show ?thesis by (simp add: entry)
    next
      case (Some optbyte)
      with Cons.prems Decoded have "decodeSinks d p m
        (acc @ [s\<lparr>sink_Name := addPrefix d (p_Namespace p) (p_Name p) k,
                   sink_Inputs := map (addPrefix d (p_Namespace p) (p_Name p)) (sink_Inputs s),
                   sink_OptionsHash := hashSprint d optbyte\<rparr>]) = Inr out"
        by (simp add: entry)
      from Cons.IH[OF this] show ?thesis by (simp add: entry)
    qed
  qed
qed

lemma getSources_names:
  "getSources d p [] = Inr ss \<Longrightarrow>
     map src_Name ss = map (addPrefix d (p_Namespace p) (p_Name p)) (keysOf (spec_Sources p))"
  using decodeSources_names[of d p _ "[]" ss]
  by (auto simp: getSources_def keysOf_def split: option.splits decoded.splits)

lemma getTransforms_names:
  "getTransforms d p = Inr ts \<Longrightarrow>
     map tr_Name ts = map (addPrefix d (p_Namespace p) (p_Name p)) (keysOf (spec_Transforms p))"
  using decodeTransforms_names[of d p _ "[]" ts]
  by (auto simp: getTransforms_def keysOf_def split: option.splits decoded.splits)

lemma getSinks_names:
  "getSinks d p = Inr ks \<Longrightarrow>
     map sink_Name ks = map (addPrefix d (p_Namespace p) (p_Name p)) (keysOf (spec_Sinks p))"
  using decodeSinks_names[of d p _ "[]" ks]
  by (auto simp: getSinks_def keysOf_def split: option.splits decoded.splits)

lemma defaultNamespaceSelector_name:
  "src_Name (defaultNamespaceSelector d p s) = src_Name s"
  by (simp add: defaultNamespaceSelector_def)

lemma extractPipeline_names:
  assumes "extractPipeline d p = Inr (S, T, K)"
  shows "map src_Name S = map (addPrefix d (p_Namespace p) (p_Name p)) (keysOf (spec_Sources p))"
    and "map tr_Name T = map (addPrefix d (p_Namespace p) (p_Name p)) (keysOf (spec_Transforms p))"
    and "map sink_Name K = map (addPrefix d (p_Namespace p) (p_Name p)) (keysOf (spec_Sinks p))"
proof -
  from extractPipeline_Inr[OF assms] obtain ss where ss: "getSources d p [] = Inr ss"
    "S = map (defaultNamespaceSelector d p) ss" by blast
  from assms ss(1) have tk: "getTransforms d p = Inr T" "getSinks d p = Inr K"
    unfolding extractPipeline_eq by (auto split: sum.splits)
  show "map src_Name S = map (addPrefix d (p_Namespace p) (p_Name p)) (keysOf (spec_Sources p))"
    using getSources_names[OF ss(1)] by (simp add: ss(2) comp_def defaultNamespaceSelector_name)
  show "map tr_Name T = map (addPrefix d (p_Namespace p) (p_Name p)) (keysOf (spec_Transforms p))"
    by (rule getTransforms_names[OF tk(1)])
  show "map sink_Name K = map (addPrefix d (p_Namespace p) (p_Name p)) (keysOf (spec_Sinks p))"
    by (rule getSinks_names[OF tk(2)])
qed


lemma getComponents_names:
  assumes "getComponents d ps = Inr (S, T, K)"
  shows "map src_Name S = prefixed d (\<lambda>p. keysOf (spec_Sources p)) ps"
    and "map tr_Name T = prefixed d (\<lambda>p. keysOf (spec_Transforms p)) ps"
    and "map sink_Name K = prefixed d (\<lambda>p. keysOf (spec_Sinks p)) ps"
proof -
  note g = getComponents_Inr[OF assms]
  have each: "\<And>p. p \<in> set ps \<Longrightarrow>
      map src_Name (pipelineSources d p) =
        map (addPrefix d (p_Namespace p) (p_Name p)) (keysOf (spec_Sources p)) \<and>
      map tr_Name (pipelineTransforms d p) =
        map (addPrefix d (p_Namespace p) (p_Name p)) (keysOf (spec_Transforms p)) \<and>
      map sink_Name (pipelineSinks d p) =
        map (addPrefix d (p_Namespace p) (p_Name p)) (keysOf (spec_Sinks p))"
  proof -
    fix p assume "p \<in> set ps"
    with g obtain r where "extractPipeline d p = Inr r" by blast
    moreover obtain S' T' K' where "r = (S', T', K')" by (cases r) auto
    ultimately have e: "extractPipeline d p = Inr (S', T', K')" by simp
    show "map src_Name (pipelineSources d p) =
        map (addPrefix d (p_Namespace p) (p_Name p)) (keysOf (spec_Sources p)) \<and>
      map tr_Name (pipelineTransforms d p) =
        map (addPrefix d (p_Namespace p) (p_Name p)) (keysOf (spec_Transforms p)) \<and>
      map sink_Name (pipelineSinks d p) =
        map (addPrefix d (p_Namespace p) (p_Name p)) (keysOf (spec_Sinks p))"
      using extractPipeline_names[OF e]
      by (simp add: pipelineSources_def pipelineTransforms_def pipelineSinks_def e)
  qed
  have S: "S = concat (map (pipelineSources d) ps)"
    and T: "T = concat (map (pipelineTransforms d) ps)"
    and K: "K = concat (map (pipelineSinks d) ps)" using g by simp_all
  show "map src_Name S = prefixed d (\<lambda>p. keysOf (spec_Sources p)) ps"
    unfolding S prefixed_def map_concat map_map
    by (rule arg_cong[where f = concat], rule map_cong[OF refl]) (simp add: each)
  show "map tr_Name T = prefixed d (\<lambda>p. keysOf (spec_Transforms p)) ps"
    unfolding T prefixed_def map_concat map_map
    by (rule arg_cong[where f = concat], rule map_cong[OF refl]) (simp add: each)
  show "map sink_Name K = prefixed d (\<lambda>p. keysOf (spec_Sinks p)) ps"
    unfolding K prefixed_def map_concat map_map
    by (rule arg_cong[where f = concat], rule map_cong[OF refl]) (simp add: each)
qed

lemma assembleConfig_components:
  assumes "assembleConfig d b = Inr c"
  shows "\<exists>S T K. getComponents d (Pipelines b) = Inr (S, T, K) \<and> Transforms c = T \<and>
           (Sources c = S \<or> Sources c = S @ [internalMetricSource] \<or>
            (S = [] \<and> Sources c = [sourceDefault])) \<and>
           (Sinks c = K \<or> Sinks c = K @ [internalMetricsExporter] \<or>
            (K = [] \<and> Sinks c = [sinkDefault]))"
proof (cases "getComponents d (Pipelines b)")
  case (Inl e)
  with assms show ?thesis by (simp add: assembleConfig_def)
next
  case (Inr r)
  obtain S T K where r: "r = (S, T, K)" by (cases r) auto
  from assms Inr r have "Transforms c = T \<and>
           (Sources c = S \<or> Sources c = S @ [internalMetricSource] \<or>
            (S = [] \<and> Sources c = [sourceDefault])) \<and>
           (Sinks c = K \<or> Sinks c = K @ [internalMetricsExporter] \<or>
            (K = [] \<and> Sinks c = [sinkDefault]))"
    by (auto simp: assembleConfig_def Let_def split: if_splits)
  with Inr r show ?thesis by blast
qed

lemma injected_names_distinct:
  assumes "distinct (A @ B @ C)" and "set (A @ B @ C) \<inter> {a, a', k, k'} = {}"
    and "a \<noteq> k" "a \<noteq> k'" "a' \<noteq> k" "a' \<noteq> k'"
    and "A' = A \<or> A' = A @ [a] \<or> (A = [] \<and> A' = [a'])"
    and "C' = C \<or> C' = C @ [k] \<or> (C = [] \<and> C' = [k'])"
  shows "distinct (A' @ B @ C')" and "set (A' @ B @ C') \<subseteq> set (A @ B @ C) \<union> {a, a', k, k'}"
  using assms by auto

lemma merged_names_distinct:
  assumes "distinct (map f xs @ B @ C)" and "m \<notin> set (map f xs @ B @ C)"
    and "t \<notin> set (map f xs @ B @ C)" and "m \<noteq> t"
  shows "distinct (map f (filter P xs) @ [m] @ B @ [t] @ C)"
  using assms by (auto simp: distinct_map_filter)

lemma fixedNames_distinct: "distinct fixedNames"
  by code_simp


lemma fixedNames_members:
  "src_Name sourceDefault \<in> set fixedNames" "sink_Name sinkDefault \<in> set fixedNames"
  "InternalMetricsSourceName \<in> set fixedNames" "InternalMetricsSinkName \<in> set fixedNames"
  "MergedKubernetesSourceName \<in> set fixedNames" "MergedSourceTransformName \<in> set fixedNames"
  by (simp_all add: fixedNames_def)

lemma fixedNames_apart:
  "InternalMetricsSourceName \<noteq> InternalMetricsSinkName"
  "InternalMetricsSourceName \<noteq> sink_Name sinkDefault"
  "src_Name sourceDefault \<noteq> InternalMetricsSinkName"
  "src_Name sourceDefault \<noteq> sink_Name sinkDefault"
  "MergedKubernetesSourceName \<noteq> MergedSourceTransformName"
  "MergedKubernetesSourceName \<notin> {InternalMetricsSourceName, src_Name sourceDefault,
     InternalMetricsSinkName, sink_Name sinkDefault}"
  "MergedSourceTransformName \<notin> {InternalMetricsSourceName, src_Name sourceDefault,
     InternalMetricsSinkName, sink_Name sinkDefault}"
  by code_simp+

lemma injected_names:
  "src_Name internalMetricSource = InternalMetricsSourceName"
  "sink_Name internalMetricsExporter = InternalMetricsSinkName"
  by (simp_all add: internalMetricSource_def internalMetricsExporter_def emptySource_def)

lemma assembled_names:
  assumes a: "assembleConfig d b = Inr c"
    and dis: "distinct (prefixedNames d (Pipelines b))"
    and off: "set (prefixedNames d (Pipelines b)) \<inter> set fixedNames = {}"
  shows "distinct (configNames c)"
    and "set (configNames c) \<subseteq> set (prefixedNames d (Pipelines b)) \<union>
           {InternalMetricsSourceName, src_Name sourceDefault,
            InternalMetricsSinkName, sink_Name sinkDefault}"
proof -
  from assembleConfig_components[OF a] obtain S T K where
    g: "getComponents d (Pipelines b) = Inr (S, T, K)" and t: "Transforms c = T"
    and s: "Sources c = S \<or> Sources c = S @ [internalMetricSource] \<or>
            (S = [] \<and> Sources c = [sourceDefault])"
    and k: "Sinks c = K \<or> Sinks c = K @ [internalMetricsExporter] \<or>
            (K = [] \<and> Sinks c = [sinkDefault])" by blast
  note n = getComponents_names[OF g]
  have p: "prefixedNames d (Pipelines b) = map src_Name S @ map tr_Name T @ map sink_Name K"
    by (simp add: prefixedNames_def n)
  have s': "map src_Name (Sources c) = map src_Name S \<or>
      map src_Name (Sources c) = map src_Name S @ [InternalMetricsSourceName] \<or>
      (map src_Name S = [] \<and> map src_Name (Sources c) = [src_Name sourceDefault])"
    using s by (auto simp: injected_names)
  have k': "map sink_Name (Sinks c) = map sink_Name K \<or>
      map sink_Name (Sinks c) = map sink_Name K @ [InternalMetricsSinkName] \<or>
      (map sink_Name K = [] \<and> map sink_Name (Sinks c) = [sink_Name sinkDefault])"
    using k by (auto simp: injected_names)
  have d0: "distinct (map src_Name S @ map tr_Name T @ map sink_Name K)"
    using dis unfolding p .
  have f0: "set (map src_Name S @ map tr_Name T @ map sink_Name K) \<inter>
      {InternalMetricsSourceName, src_Name sourceDefault,
       InternalMetricsSinkName, sink_Name sinkDefault} = {}"
    using off fixedNames_members unfolding p by blast
  note r = injected_names_distinct[OF d0 f0 fixedNames_apart(1-4) s' k']
  show "distinct (configNames c)"
    unfolding configNames_def t using r(1) .
  show "set (configNames c) \<subseteq> set (prefixedNames d (Pipelines b)) \<union>
           {InternalMetricsSourceName, src_Name sourceDefault,
            InternalMetricsSinkName, sink_Name sinkDefault}"
    unfolding configNames_def t p using r(2) .
qed

lemma merged_configNames:
  assumes "\<exists>s\<in>set (Sources c). eligible s"
  shows "configNames (mergeKubernetesSources c) =
     map src_Name (filter (\<lambda>s. \<not> eligible s) (Sources c)) @ [MergedKubernetesSourceName] @
     map tr_Name (Transforms c) @ [MergedSourceTransformName] @ map sink_Name (Sinks c)"
  unfolding configNames_def merged_Transforms[OF assms] merged_Sources[OF assms]
    merged_Sinks[OF assms]
  by (simp add: comp_def)

lemma mergeKubernetesSources_names:
  assumes dis: "distinct (configNames c)"
    and m: "MergedKubernetesSourceName \<notin> set (configNames c)"
    and t: "MergedSourceTransformName \<notin> set (configNames c)"
  shows "distinct (configNames (mergeKubernetesSources c))"
proof (cases "\<exists>s\<in>set (Sources c). eligible s")
  case True
  show ?thesis
    unfolding merged_configNames[OF True]
    by (rule merged_names_distinct[OF dis[unfolded configNames_def] m[unfolded configNames_def]
          t[unfolded configNames_def] fixedNames_apart(5)])
next
  case False
  show ?thesis unfolding mergeKubernetesSources_none[OF False] by (rule dis)
qed

lemma componentNames_prefix: "configNames c = componentNames c @ map sink_Name (Sinks c)"
  by (simp add: configNames_def componentNames_def)


text \<open>
  Claim C6, as amended. The builder names a component of a pipeline by prefixing the key
  under which the pipeline declares it, and by nothing else. Whenever the assembly
  succeeds, no two prefixed names of the pipeline set are equal and none of them is one
  of the six names of the injected components, no two components of the assembled
  configuration share a name, across sources, transforms and sinks; the same holds after
  the kubernetes-log merge pass, the merged source and the routing transform included,
  and of the emitted configuration when the sink merge pass is off; with the sink merge
  pass on it holds of the emitted sources and transforms.
\<close>

theorem prefixed_names_stay_distinct:
  "(\<forall>S T K. getComponents d (Pipelines b) = Inr (S, T, K) \<longrightarrow>
      map src_Name S @ map tr_Name T @ map sink_Name K = prefixedNames d (Pipelines b)) \<and>
   (\<forall>c. assembleConfig d b = Inr c \<and> distinct (prefixedNames d (Pipelines b)) \<and>
      set (prefixedNames d (Pipelines b)) \<inter> set fixedNames = {} \<longrightarrow>
      generateVectorConfig d b = Inr (mergePasses b c) \<and>
      distinct (configNames c) \<and>
      distinct (configNames (mergeKubernetesSources c)) \<and>
      (\<not> Spec_MergeSinks b \<longrightarrow> distinct (configNames (mergePasses b c))) \<and>
      distinct (componentNames (mergePasses b c)))"
proof (intro conjI allI impI)
  fix S T K
  assume g: "getComponents d (Pipelines b) = Inr (S, T, K)"
  show "map src_Name S @ map tr_Name T @ map sink_Name K = prefixedNames d (Pipelines b)"
    by (simp add: prefixedNames_def getComponents_names[OF g])
next
  fix c :: "'a VectorConfig"
  assume h: "assembleConfig d b = Inr c \<and> distinct (prefixedNames d (Pipelines b)) \<and>
      set (prefixedNames d (Pipelines b)) \<inter> set fixedNames = {}"
  then have a: "assembleConfig d b = Inr c"
    and dis: "distinct (prefixedNames d (Pipelines b))"
    and off: "set (prefixedNames d (Pipelines b)) \<inter> set fixedNames = {}" by simp_all
  note n = assembled_names[OF a dis off]
  have m: "MergedKubernetesSourceName \<notin> set (configNames c)"
    using n(2) off fixedNames_members(5) fixedNames_apart(6) by blast
  have t: "MergedSourceTransformName \<notin> set (configNames c)"
    using n(2) off fixedNames_members(6) fixedNames_apart(7) by blast
  note k = mergeKubernetesSources_names[OF n(1) m t]
  let ?c1 = "if Spec_MergeKubernetesSources b then mergeKubernetesSources c else c"
  have c1: "distinct (configNames ?c1)" using n(1) k by simp
  have p: "mergePasses b c = (if Spec_MergeSinks b then mergeSyncs ?c1 else ?c1)"
    by (simp add: mergePasses_def Let_def)
  have cn: "componentNames (mergePasses b c) = componentNames ?c1"
    unfolding p by (simp add: mergeSyncs_names(1))
  show "generateVectorConfig d b = Inr (mergePasses b c)"
    by (simp add: generateVectorConfig_def a)
  show "distinct (configNames c)" by (rule n(1))
  show "distinct (configNames (mergeKubernetesSources c))" by (rule k)
  show "distinct (configNames (mergePasses b c))" if "\<not> Spec_MergeSinks b"
    using that c1 unfolding p by simp
  show "distinct (componentNames (mergePasses b c))"
    unfolding cn using c1 unfolding componentNames_prefix by simp
qed

lemma resolved_extracted:
  "getComponents exampleDeps (Pipelines (exampleBuilder [resolvedPipeline])) =
     Inr (Sources exampleResolvedConfig, Transforms exampleResolvedConfig,
          Sinks exampleResolvedConfig)"
  by code_simp

lemma resolved_prefixed:
  "prefixedNames exampleDeps (Pipelines (exampleBuilder [resolvedPipeline])) =
     [''.p.logs'', ''.p.parse'', ''.p.out'']"
  by code_simp

lemma resolved_prefixed_distinct:
  "distinct (prefixedNames exampleDeps (Pipelines (exampleBuilder [resolvedPipeline])))"
  by code_simp

lemma resolved_prefixed_apart:
  "set (prefixedNames exampleDeps (Pipelines (exampleBuilder [resolvedPipeline]))) \<inter>
     set fixedNames = {}"
  by code_simp

lemma resolved_merged_names:
  "configNames (mergeKubernetesSources exampleResolvedConfig) =
     [''mergedKubernetesSource'', ''.p.parse'', ''merged'', ''.p.out'']"
  by code_simp

theorem prefixed_names_stay_distinct_witness:
  "getComponents exampleDeps (Pipelines (exampleBuilder [resolvedPipeline])) =
     Inr (Sources exampleResolvedConfig, Transforms exampleResolvedConfig,
          Sinks exampleResolvedConfig) \<and>
   map src_Name (Sources exampleResolvedConfig) @ map tr_Name (Transforms exampleResolvedConfig) @
     map sink_Name (Sinks exampleResolvedConfig) =
     prefixedNames exampleDeps (Pipelines (exampleBuilder [resolvedPipeline])) \<and>
   prefixedNames exampleDeps (Pipelines (exampleBuilder [resolvedPipeline])) =
     [''.p.logs'', ''.p.parse'', ''.p.out''] \<and>
   assembleConfig exampleDeps (exampleBuilder [resolvedPipeline]) = Inr exampleResolvedConfig \<and>
   distinct (configNames exampleResolvedConfig) \<and>
   configNames (mergeKubernetesSources exampleResolvedConfig) =
     [''mergedKubernetesSource'', ''.p.parse'', ''merged'', ''.p.out''] \<and>
   distinct (configNames (mergeKubernetesSources exampleResolvedConfig)) \<and>
   distinct (componentNames (mergePasses (exampleBuilder [resolvedPipeline]) exampleResolvedConfig))"
proof -
  note t = prefixed_names_stay_distinct[of exampleDeps "exampleBuilder [resolvedPipeline]"]
  note t1 = t[THEN conjunct1, THEN spec, THEN spec, THEN spec, THEN mp, OF resolved_extracted]
  note t2 = t[THEN conjunct2, THEN spec, THEN mp, OF conjI, OF resolved_assembled conjI,
      OF resolved_prefixed_distinct resolved_prefixed_apart]
  from resolved_extracted t1 resolved_prefixed resolved_assembled
    t2[THEN conjunct2, THEN conjunct1] resolved_merged_names
    t2[THEN conjunct2, THEN conjunct2, THEN conjunct1]
    t2[THEN conjunct2, THEN conjunct2, THEN conjunct2, THEN conjunct2]
  show ?thesis by (intro conjI)
qed

lemma clash_plain_build:
  "generateVectorConfig exampleDeps (plainBuilder [clashPipelineA, clashPipelineB]) =
     Inr exampleClashConfig"
  by code_simp

lemma clash_names:
  "configNames exampleClashConfig = [''.b.c.d'', ''.b.c.d'', ''defaultSink'']"
  by code_simp

theorem prefixing_gives_two_sources_one_name:
  "generateVectorConfig exampleDeps (plainBuilder [clashPipelineA, clashPipelineB]) =
     Inr exampleClashConfig \<and>
   configNames exampleClashConfig = [''.b.c.d'', ''.b.c.d'', ''defaultSink''] \<and>
   \<not> distinct (configNames exampleClashConfig)"
proof -
  have "\<not> distinct (configNames exampleClashConfig)" unfolding clash_names by simp
  with clash_plain_build clash_names show ?thesis by (intro conjI)
qed


text \<open>
  The sink merge pass is left out of the amended claim for the sinks: it renames the
  first sink of every merged group to the group's options hash, and the hash does not
  hold the sink type, so two groups of different types with one hash get one name.
\<close>

lemma sink_groups_renamed_alike:
  "map sink_Name sameHashSinks = [''ns.p.a'', ''ns.p.b'', ''ns.p.c'', ''ns.p.e''] \<and>
   map sink_Name (mergeSinkList sameHashSinks) = [''17'', ''17''] \<and>
   map sink_Type (mergeSinkList sameHashSinks) = [''console'', ''blackhole'']"
  by code_simp

section \<open>The resource synchroniser\<close>

lemma reconcileService_exists:
  "(\<forall>d e c. c_Create c (Some d) = Some AlreadyExists \<and>
      c_Get c (om_Namespace (svc_Meta d), om_Name (svc_Meta d)) = Inr e \<longrightarrow>
      reconcileService (Some d) c =
        ([CreateCall (Some d), GetCall (om_Namespace (svc_Meta d), om_Name (svc_Meta d))] @
           (if e = d then [] else [UpdateCall (e\<lparr>svc_Spec := svc_Spec d, svc_Meta := (svc_Meta e)\<lparr>om_Labels := om_Labels (svc_Meta d)\<rparr>\<rparr>)]),
         Returned (if e = d then None else c_Update c (e\<lparr>svc_Spec := svc_Spec d, svc_Meta := (svc_Meta e)\<lparr>om_Labels := om_Labels (svc_Meta d)\<rparr>\<rparr>))) \<and>
      updateCalls (reconcileService (Some d) c) =
        (if e = d then [] else [e\<lparr>svc_Spec := svc_Spec d, svc_Meta := (svc_Meta e)\<lparr>om_Labels := om_Labels (svc_Meta d)\<rparr>\<rparr>]))"
  by (simp add: reconcileService_def updateCalls_def IsAlreadyExists_def
      ObjectKeyFromObject_def Let_def)

lemma reconcileSecret_exists:
  "(\<forall>d e c. c_Create c (Some d) = Some AlreadyExists \<and>
      c_Get c (om_Namespace (sec_Meta d), om_Name (sec_Meta d)) = Inr e \<longrightarrow>
      reconcileSecret (Some d) c =
        ([CreateCall (Some d), GetCall (om_Namespace (sec_Meta d), om_Name (sec_Meta d))] @
           (if e = d then [] else [UpdateCall (e\<lparr>sec_Data := sec_Data d, sec_Meta := (sec_Meta e)\<lparr>om_Labels := om_Labels (sec_Meta d)\<rparr>\<rparr>)]),
         Returned (if e = d then None else c_Update c (e\<lparr>sec_Data := sec_Data d, sec_Meta := (sec_Meta e)\<lparr>om_Labels := om_Labels (sec_Meta d)\<rparr>\<rparr>))) \<and>
      updateCalls (reconcileSecret (Some d) c) =
        (if e = d then [] else [e\<lparr>sec_Data := sec_Data d, sec_Meta := (sec_Meta e)\<lparr>om_Labels := om_Labels (sec_Meta d)\<rparr>\<rparr>]))"
  by (simp add: reconcileSecret_def updateCalls_def IsAlreadyExists_def
      ObjectKeyFromObject_def Let_def)

lemma reconcileDaemonSet_exists:
  "(\<forall>d e c. c_Create c (Some d) = Some AlreadyExists \<and>
      c_Get c (om_Namespace (ds_Meta d), om_Name (ds_Meta d)) = Inr e \<longrightarrow>
      reconcileDaemonSet (Some d) c =
        ([CreateCall (Some d), GetCall (om_Namespace (ds_Meta d), om_Name (ds_Meta d))] @
           (if e = d then [] else [UpdateCall (e\<lparr>ds_Spec := ds_Spec d, ds_Meta := (ds_Meta e)\<lparr>om_Labels := om_Labels (ds_Meta d)\<rparr>\<rparr>)]),
         Returned (if e = d then None else c_Update c (e\<lparr>ds_Spec := ds_Spec d, ds_Meta := (ds_Meta e)\<lparr>om_Labels := om_Labels (ds_Meta d)\<rparr>\<rparr>))) \<and>
      updateCalls (reconcileDaemonSet (Some d) c) =
        (if e = d then [] else [e\<lparr>ds_Spec := ds_Spec d, ds_Meta := (ds_Meta e)\<lparr>om_Labels := om_Labels (ds_Meta d)\<rparr>\<rparr>]))"
  by (simp add: reconcileDaemonSet_def updateCalls_def IsAlreadyExists_def
      ObjectKeyFromObject_def Let_def)

lemma reconcileStatefulSet_exists:
  "(\<forall>d e c. c_Create c (Some d) = Some AlreadyExists \<and>
      c_Get c (om_Namespace (sts_Meta d), om_Name (sts_Meta d)) = Inr e \<longrightarrow>
      reconcileStatefulSet (Some d) c =
        ([CreateCall (Some d), GetCall (om_Namespace (sts_Meta d), om_Name (sts_Meta d))] @
           (if e = d then [] else [UpdateCall (e\<lparr>sts_Spec := sts_Spec d, sts_Meta := (sts_Meta e)\<lparr>om_Labels := om_Labels (sts_Meta d)\<rparr>\<rparr>)]),
         Returned (if e = d then None else c_Update c (e\<lparr>sts_Spec := sts_Spec d, sts_Meta := (sts_Meta e)\<lparr>om_Labels := om_Labels (sts_Meta d)\<rparr>\<rparr>))) \<and>
      updateCalls (reconcileStatefulSet (Some d) c) =
        (if e = d then [] else [e\<lparr>sts_Spec := sts_Spec d, sts_Meta := (sts_Meta e)\<lparr>om_Labels := om_Labels (sts_Meta d)\<rparr>\<rparr>]))"
  by (simp add: reconcileStatefulSet_def updateCalls_def IsAlreadyExists_def
      ObjectKeyFromObject_def Let_def)

lemma reconcileClusterRole_exists:
  "(\<forall>d e c. c_Create c (Some d) = Some AlreadyExists \<and>
      c_Get c (om_Namespace (cr_Meta d), om_Name (cr_Meta d)) = Inr e \<longrightarrow>
      reconcileClusterRole (Some d) c =
        ([CreateCall (Some d), GetCall (om_Namespace (cr_Meta d), om_Name (cr_Meta d))] @
           (if e = d then [] else [UpdateCall (e\<lparr>cr_Rules := cr_Rules d\<rparr>)]),
         Returned (if e = d then None else c_Update c (e\<lparr>cr_Rules := cr_Rules d\<rparr>))) \<and>
      updateCalls (reconcileClusterRole (Some d) c) =
        (if e = d then [] else [e\<lparr>cr_Rules := cr_Rules d\<rparr>]))"
  by (simp add: reconcileClusterRole_def updateCalls_def IsAlreadyExists_def
      ObjectKeyFromObject_def Let_def)

lemma reconcileClusterRoleBinding_exists:
  "(\<forall>d e c. c_Create c (Some d) = Some AlreadyExists \<and>
      c_Get c (om_Namespace (crb_Meta d), om_Name (crb_Meta d)) = Inr e \<longrightarrow>
      reconcileClusterRoleBinding (Some d) c =
        ([CreateCall (Some d), GetCall (om_Namespace (crb_Meta d), om_Name (crb_Meta d))] @
           (if e = d then [] else [UpdateCall (e\<lparr>crb_RoleRef := crb_RoleRef d, crb_Subjects := crb_Subjects d\<rparr>)]),
         Returned (if e = d then None else c_Update c (e\<lparr>crb_RoleRef := crb_RoleRef d, crb_Subjects := crb_Subjects d\<rparr>))) \<and>
      updateCalls (reconcileClusterRoleBinding (Some d) c) =
        (if e = d then [] else [e\<lparr>crb_RoleRef := crb_RoleRef d, crb_Subjects := crb_Subjects d\<rparr>]))"
  by (simp add: reconcileClusterRoleBinding_def updateCalls_def IsAlreadyExists_def
      ObjectKeyFromObject_def Let_def)

lemma reconcileServiceAccount_no_update:
  "(\<forall>d c. updateCalls (reconcileServiceAccount d c) = [])"
  by (simp add: reconcileServiceAccount_def updateCalls_def Let_def
      split: option.splits sum.splits)

text \<open>
  Claim C1, as amended. After a create that failed because the object exists and a fetch
  that succeeded, a reconcile function issues an update if and only if the fetched object
  as a whole differs from the desired one, its server-managed fields included. When they
  differ it overwrites the fields of its kind on the fetched object (spec and labels,
  data and labels, rules, or role reference and subjects), leaves every other field of
  the fetched object, its resource version among them, as fetched, issues exactly one
  update with that object and returns what the update answered; when they are equal it
  issues no update and returns no error. The service account is never updated.
\<close>

theorem sync_updates_when_objects_differ:
  "(\<forall>d e c. c_Create c (Some d) = Some AlreadyExists \<and>
      c_Get c (om_Namespace (svc_Meta d), om_Name (svc_Meta d)) = Inr e \<longrightarrow>
      reconcileService (Some d) c =
        ([CreateCall (Some d), GetCall (om_Namespace (svc_Meta d), om_Name (svc_Meta d))] @
           (if e = d then [] else [UpdateCall (e\<lparr>svc_Spec := svc_Spec d, svc_Meta := (svc_Meta e)\<lparr>om_Labels := om_Labels (svc_Meta d)\<rparr>\<rparr>)]),
         Returned (if e = d then None else c_Update c (e\<lparr>svc_Spec := svc_Spec d, svc_Meta := (svc_Meta e)\<lparr>om_Labels := om_Labels (svc_Meta d)\<rparr>\<rparr>))) \<and>
      updateCalls (reconcileService (Some d) c) =
        (if e = d then [] else [e\<lparr>svc_Spec := svc_Spec d, svc_Meta := (svc_Meta e)\<lparr>om_Labels := om_Labels (svc_Meta d)\<rparr>\<rparr>])) \<and>
   (\<forall>d e c. c_Create c (Some d) = Some AlreadyExists \<and>
      c_Get c (om_Namespace (sec_Meta d), om_Name (sec_Meta d)) = Inr e \<longrightarrow>
      reconcileSecret (Some d) c =
        ([CreateCall (Some d), GetCall (om_Namespace (sec_Meta d), om_Name (sec_Meta d))] @
           (if e = d then [] else [UpdateCall (e\<lparr>sec_Data := sec_Data d, sec_Meta := (sec_Meta e)\<lparr>om_Labels := om_Labels (sec_Meta d)\<rparr>\<rparr>)]),
         Returned (if e = d then None else c_Update c (e\<lparr>sec_Data := sec_Data d, sec_Meta := (sec_Meta e)\<lparr>om_Labels := om_Labels (sec_Meta d)\<rparr>\<rparr>))) \<and>
      updateCalls (reconcileSecret (Some d) c) =
        (if e = d then [] else [e\<lparr>sec_Data := sec_Data d, sec_Meta := (sec_Meta e)\<lparr>om_Labels := om_Labels (sec_Meta d)\<rparr>\<rparr>])) \<and>
   (\<forall>d e c. c_Create c (Some d) = Some AlreadyExists \<and>
      c_Get c (om_Namespace (ds_Meta d), om_Name (ds_Meta d)) = Inr e \<longrightarrow>
      reconcileDaemonSet (Some d) c =
        ([CreateCall (Some d), GetCall (om_Namespace (ds_Meta d), om_Name (ds_Meta d))] @
           (if e = d then [] else [UpdateCall (e\<lparr>ds_Spec := ds_Spec d, ds_Meta := (ds_Meta e)\<lparr>om_Labels := om_Labels (ds_Meta d)\<rparr>\<rparr>)]),
         Returned (if e = d then None else c_Update c (e\<lparr>ds_Spec := ds_Spec d, ds_Meta := (ds_Meta e)\<lparr>om_Labels := om_Labels (ds_Meta d)\<rparr>\<rparr>))) \<and>
      updateCalls (reconcileDaemonSet (Some d) c) =
        (if e = d then [] else [e\<lparr>ds_Spec := ds_Spec d, ds_Meta := (ds_Meta e)\<lparr>om_Labels := om_Labels (ds_Meta d)\<rparr>\<rparr>])) \<and>
   (\<forall>d e c. c_Create c (Some d) = Some AlreadyExists \<and>
      c_Get c (om_Namespace (sts_Meta d), om_Name (sts_Meta d)) = Inr e \<longrightarrow>
      reconcileStatefulSet (Some d) c =
        ([CreateCall (Some d), GetCall (om_Namespace (sts_Meta d), om_Name (sts_Meta d))] @
           (if e = d then [] else [UpdateCall (e\<lparr>sts_Spec := sts_Spec d, sts_Meta := (sts_Meta e)\<lparr>om_Labels := om_Labels (sts_Meta d)\<rparr>\<rparr>)]),
         Returned (if e = d then None else c_Update c (e\<lparr>sts_Spec := sts_Spec d, sts_Meta := (sts_Meta e)\<lparr>om_Labels := om_Labels (sts_Meta d)\<rparr>\<rparr>))) \<and>
      updateCalls (reconcileStatefulSet (Some d) c) =
        (if e = d then [] else [e\<lparr>sts_Spec := sts_Spec d, sts_Meta := (sts_Meta e)\<lparr>om_Labels := om_Labels (sts_Meta d)\<rparr>\<rparr>])) \<and>
   (\<forall>d e c. c_Create c (Some d) = Some AlreadyExists \<and>
      c_Get c (om_Namespace (cr_Meta d), om_Name (cr_Meta d)) = Inr e \<longrightarrow>
      reconcileClusterRole (Some d) c =
        ([CreateCall (Some d), GetCall (om_Namespace (cr_Meta d), om_Name (cr_Meta d))] @
           (if e = d then [] else [UpdateCall (e\<lparr>cr_Rules := cr_Rules d\<rparr>)]),
         Returned (if e = d then None else c_Update c (e\<lparr>cr_Rules := cr_Rules d\<rparr>))) \<and>
      updateCalls (reconcileClusterRole (Some d) c) =
        (if e = d then [] else [e\<lparr>cr_Rules := cr_Rules d\<rparr>])) \<and>
   (\<forall>d e c. c_Create c (Some d) = Some AlreadyExists \<and>
      c_Get c (om_Namespace (crb_Meta d), om_Name (crb_Meta d)) = Inr e \<longrightarrow>
      reconcileClusterRoleBinding (Some d) c =
        ([CreateCall (Some d), GetCall (om_Namespace (crb_Meta d), om_Name (crb_Meta d))] @
           (if e = d then [] else [UpdateCall (e\<lparr>crb_RoleRef := crb_RoleRef d, crb_Subjects := crb_Subjects d\<rparr>)]),
         Returned (if e = d then None else c_Update c (e\<lparr>crb_RoleRef := crb_RoleRef d, crb_Subjects := crb_Subjects d\<rparr>))) \<and>
      updateCalls (reconcileClusterRoleBinding (Some d) c) =
        (if e = d then [] else [e\<lparr>crb_RoleRef := crb_RoleRef d, crb_Subjects := crb_Subjects d\<rparr>])) \<and>
   (\<forall>d c. updateCalls (reconcileServiceAccount d c) = [])"
  by (intro conjI) (fact reconcileService_exists
    reconcileSecret_exists
    reconcileDaemonSet_exists
    reconcileStatefulSet_exists
    reconcileClusterRole_exists
    reconcileClusterRoleBinding_exists
    reconcileServiceAccount_no_update)+

lemma existsClient_answers:
  "c_Create (existsClient stored) desired = Some AlreadyExists"
  "c_Get (existsClient stored) key = Inr stored"
  "c_Update (existsClient stored) existing = None"
  by (simp_all add: existsClient_def)

lemma drifted_differs: "driftedService \<noteq> desiredService"
  by code_simp

lemma drifted_overwritten:
  "driftedService\<lparr>svc_Spec := svc_Spec desiredService,
     svc_Meta := (svc_Meta driftedService)\<lparr>om_Labels := om_Labels (svc_Meta desiredService)\<rparr>\<rparr> =
   storedService"
  by code_simp

lemma stored_fields:
  "svc_Spec storedService = svc_Spec desiredService"
  "om_Labels (svc_Meta storedService) = om_Labels (svc_Meta desiredService)"
  "om_ResourceVersion (svc_Meta storedService) = ''41''"
  "om_ResourceVersion (svc_Meta desiredService) = []"
  by code_simp+

lemma desiredService_key:
  "(om_Namespace (svc_Meta desiredService), om_Name (svc_Meta desiredService)) = (''obs'', ''vector'')"
  by code_simp

theorem sync_updates_when_objects_differ_witness:
  "reconcileService (Some desiredService) (existsClient driftedService) =
     ([CreateCall (Some desiredService), GetCall (''obs'', ''vector''), UpdateCall storedService],
      Returned None) \<and>
   updateCalls (reconcileService (Some desiredService) (existsClient driftedService)) =
     [storedService] \<and>
   om_ResourceVersion (svc_Meta storedService) = ''41'' \<and>
   updateCalls (reconcileService (Some desiredService) (existsClient desiredService)) = [] \<and>
   updateCalls (reconcileSecret (Some desiredSecret) (existsClient desiredSecret)) = [] \<and>
   updateCalls (reconcileDaemonSet (Some desiredDaemonSet) (existsClient desiredDaemonSet)) = [] \<and>
   updateCalls (reconcileStatefulSet (Some desiredStatefulSet) (existsClient desiredStatefulSet)) = [] \<and>
   updateCalls (reconcileClusterRole (Some desiredClusterRole) (existsClient desiredClusterRole)) = [] \<and>
   updateCalls (reconcileClusterRoleBinding (Some desiredClusterRoleBinding)
     (existsClient desiredClusterRoleBinding)) = [] \<and>
   updateCalls (reconcileServiceAccount (Some desiredServiceAccount)
     (existsClient desiredServiceAccount)) = []"
proof -
  note t = sync_updates_when_objects_differ
  note h = conjI[OF existsClient_answers(1) existsClient_answers(2)]
  note svc = t[THEN conjunct1, THEN spec, THEN spec, THEN spec, THEN mp, OF h]
  note sec = t[THEN conjunct2, THEN conjunct1, THEN spec, THEN spec, THEN spec, THEN mp, OF h]
  note ds = t[THEN conjunct2, THEN conjunct2, THEN conjunct1,
      THEN spec, THEN spec, THEN spec, THEN mp, OF h]
  note sts = t[THEN conjunct2, THEN conjunct2, THEN conjunct2, THEN conjunct1,
      THEN spec, THEN spec, THEN spec, THEN mp, OF h]
  note cr = t[THEN conjunct2, THEN conjunct2, THEN conjunct2, THEN conjunct2, THEN conjunct1,
      THEN spec, THEN spec, THEN spec, THEN mp, OF h]
  note crb = t[THEN conjunct2, THEN conjunct2, THEN conjunct2, THEN conjunct2, THEN conjunct2,
      THEN conjunct1, THEN spec, THEN spec, THEN spec, THEN mp, OF h]
  note sa = t[THEN conjunct2, THEN conjunct2, THEN conjunct2, THEN conjunct2, THEN conjunct2,
      THEN conjunct2, THEN spec, THEN spec]
  have 1: "reconcileService (Some desiredService) (existsClient driftedService) =
     ([CreateCall (Some desiredService), GetCall (''obs'', ''vector''), UpdateCall storedService],
      Returned None)"
    using svc[of desiredService driftedService, THEN conjunct1]
    unfolding drifted_overwritten desiredService_key existsClient_answers(3)
    by (simp add: drifted_differs)
  have 2: "updateCalls (reconcileService (Some desiredService) (existsClient driftedService)) =
     [storedService]"
    using svc[of desiredService driftedService, THEN conjunct2]
    unfolding drifted_overwritten by (simp add: drifted_differs)
  have 3: "updateCalls (reconcileService (Some desiredService) (existsClient desiredService)) = []"
    using svc[of desiredService desiredService, THEN conjunct2] by simp
  have 4: "updateCalls (reconcileSecret (Some desiredSecret) (existsClient desiredSecret)) = []"
    using sec[of desiredSecret desiredSecret, THEN conjunct2] by simp
  have 5: "updateCalls (reconcileDaemonSet (Some desiredDaemonSet) (existsClient desiredDaemonSet)) = []"
    using ds[of desiredDaemonSet desiredDaemonSet, THEN conjunct2] by simp
  have 6: "updateCalls (reconcileStatefulSet (Some desiredStatefulSet)
      (existsClient desiredStatefulSet)) = []"
    using sts[of desiredStatefulSet desiredStatefulSet, THEN conjunct2] by simp
  have 7: "updateCalls (reconcileClusterRole (Some desiredClusterRole)
      (existsClient desiredClusterRole)) = []"
    using cr[of desiredClusterRole desiredClusterRole, THEN conjunct2] by simp
  have 8: "updateCalls (reconcileClusterRoleBinding (Some desiredClusterRoleBinding)
     (existsClient desiredClusterRoleBinding)) = []"
    using crb[of desiredClusterRoleBinding desiredClusterRoleBinding, THEN conjunct2] by simp
  from 1 2 stored_fields(3) 3 4 5 6 7 8 sa show ?thesis by (intro conjI)
qed

lemma stored_update:
  "reconcileService (Some desiredService) (existsClient storedService) =
     ([CreateCall (Some desiredService), GetCall (''obs'', ''vector''), UpdateCall storedService],
      Returned None)"
  by code_simp

lemma stored_updateCalls:
  "updateCalls (reconcileService (Some desiredService) (existsClient storedService)) =
     [storedService]"
  by code_simp

theorem equal_spec_and_labels_still_updated:
  "c_Create (existsClient storedService) (Some desiredService) = Some AlreadyExists \<and>
   c_Get (existsClient storedService) (''obs'', ''vector'') = Inr storedService \<and>
   svc_Spec storedService = svc_Spec desiredService \<and>
   om_Labels (svc_Meta storedService) = om_Labels (svc_Meta desiredService) \<and>
   om_ResourceVersion (svc_Meta storedService) = ''41'' \<and>
   om_ResourceVersion (svc_Meta desiredService) = [] \<and>
   reconcileService (Some desiredService) (existsClient storedService) =
     ([CreateCall (Some desiredService), GetCall (''obs'', ''vector''), UpdateCall storedService],
      Returned None) \<and>
   updateCalls (reconcileService (Some desiredService) (existsClient storedService)) =
     [storedService]"
  using existsClient_answers(1)[of storedService "Some desiredService"]
    existsClient_answers(2)[of storedService "(''obs'', ''vector'')"]
    stored_fields stored_update stored_updateCalls
  by (intro conjI)

end
